theory Spec2Isabelle
  imports Complex_Main "HOL-Library.FSet" "HOL-Library.Log_Nat"
begin

section \<open>The beam builder of planesections (builder.py)\<close>

text \<open>
  A shallow embedding of the node registry of \<^verbatim>\<open>planesections/builder.py\<close>: the classes
  \<^verbatim>\<open>Node\<close>, \<^verbatim>\<open>PointLoad\<close>, \<^verbatim>\<open>EleLoad\<close>, \<^verbatim>\<open>Beam\<close> and \<^verbatim>\<open>EulerBeam\<close>.

  Conventions of the embedding.
  \<^item> A method of \<^verbatim>\<open>Beam\<close> takes the beam and returns a pair: what the call did
    (\<open>Returned v\<close>, or \<open>Raised e\<close> for an exception) and the beam as the call left it,
    so that a mutation made before an exception is visible.
  \<^item> A coordinate is a Python int or float. \<^verbatim>\<open>==\<close>, \<^verbatim>\<open><\<close>, \<^verbatim>\<open>in\<close> and \<^verbatim>\<open>-\<close> on them are modelled
    on the exact value, a \<^typ>\<open>real\<close> (NaN, infinities and the rounding of a difference are
    left out). \<^verbatim>\<open>_sortNodes\<close> does not sort these values but a float64 copy of them, which
    is modelled with its rounding and its OverflowError.
  \<^item> Counters, identifiers and list positions never go below zero in the source
    (\<^verbatim>\<open>Nnodes\<close> starts at 0 and is only incremented, identifiers are \<^verbatim>\<open>ii + 1\<close>), so they are
    \<^typ>\<open>nat\<close>; the return flag of \<^verbatim>\<open>addNode\<close> and the index given to \<^verbatim>\<open>Fmax\<close> are \<^typ>\<open>int\<close>.
  \<^item> A label is \<^verbatim>\<open>None\<close> or a string: \<^typ>\<open>string option\<close>.
  \<^item> The section object, the plotter and \<^verbatim>\<open>loadPattern\<close> are not part of the registry and
    are left out.
\<close>

subsection \<open>Exceptions and results\<close>

datatype error = ValueError | IndexError | TypeError | OverflowError | Exception

datatype 'a outcome = Returned 'a | Raised error

subsection \<open>Node\<close>

record node =
  node_x :: real
  node_fixity :: "int list"
  node_ID :: "nat option"
  node_label :: "string option"
  node_labelIsPlotted :: bool
  node_pointLoadIDs :: "nat list"
  node_disp :: "real list option"
  node_rFrc :: "real list option"
  node_Fint :: "real list option"
  node_hasReaction :: bool

text \<open>
  \<^verbatim>\<open>np.any(np.array(fixity) != np.array([0,0,0], int))\<close>. The comparison is elementwise
  against a vector of shape (3,): a fixity of length 3 is compared entry by entry, one of
  length 1 is broadcast, and any other length does not broadcast, for which NumPy raises
  ValueError (from version 1.25 on; older versions warned and answered True).
\<close>

definition fixity_ne_zero3 :: "int list \<Rightarrow> bool outcome" where
  "fixity_ne_zero3 fixity =
     (if length fixity = 3 \<or> length fixity = 1
      then Returned (list_ex (\<lambda>v. v \<noteq> 0) fixity)
      else Raised ValueError)"

text \<open>\<^verbatim>\<open>Node.__init__\<close> (\<^verbatim>\<open>Node2D\<close> and \<^verbatim>\<open>Node3D\<close> only call it).\<close>

definition Node_init :: "real \<Rightarrow> int list \<Rightarrow> string option \<Rightarrow> node outcome" where
  "Node_init x fixity label =
     (case fixity_ne_zero3 fixity of
        Raised e \<Rightarrow> Raised e
      | Returned r \<Rightarrow>
          Returned \<lparr>node_x = x, node_fixity = fixity, node_ID = None, node_label = label,
                    node_labelIsPlotted = False, node_pointLoadIDs = [],
                    node_disp = None, node_rFrc = None, node_Fint = None,
                    node_hasReaction = r\<rparr>)"

subsection \<open>Loads\<close>

record pointLoad =
  pl_P :: "real list"
  pl_x :: real
  pl_nodeID :: nat
  pl_label :: string

record eleLoad =
  el_x1 :: real
  el_x2 :: real
  el_P :: "real list"
  el_label :: string

subsection \<open>Beam\<close>

datatype dimension = D2 | D3

text \<open>
  The fields of \<^verbatim>\<open>_initArrays\<close>, \<^verbatim>\<open>_initDimensionVariables\<close> and \<^verbatim>\<open>EulerBeam.__init__\<close>.
  \<^verbatim>\<open>nodeLabels\<close> is a dict from label to index, kept as an association list;
  \<^verbatim>\<open>nodeCoords\<close> is a Python set, hence finite.
\<close>

record beam =
  beam_dimension :: dimension
  ndf :: nat
  nodeLabels :: "(string \<times> nat) list"
  nodes :: "node list"
  Nnodes :: nat
  pointLoads :: "pointLoad list"
  distLoads :: "eleLoad list"
  nodeCoords :: "real fset"
  eleLoads :: "eleLoad list"

definition initBeam :: "dimension \<Rightarrow> beam" where
  "initBeam d =
     \<lparr>beam_dimension = d, ndf = (case d of D2 \<Rightarrow> 3 | D3 \<Rightarrow> 6), nodeLabels = [],
      nodes = [], Nnodes = 0, pointLoads = [], distLoads = [], nodeCoords = {||},
      eleLoads = []\<rparr>"

text \<open>The first position at which a predicate holds (\<^verbatim>\<open>enumerate\<close> with an early return,
  \<^verbatim>\<open>np.where(...)[0][0]\<close>).\<close>

fun first_index :: "('a \<Rightarrow> bool) \<Rightarrow> 'a list \<Rightarrow> nat option" where
  "first_index P [] = None"
| "first_index P (y # ys) = (if P y then Some 0 else map_option Suc (first_index P ys))"

definition findNode :: "beam \<Rightarrow> real \<Rightarrow> nat option" where
  "findNode b xInput = first_index (\<lambda>n. xInput = node_x n) (nodes b)"

definition getNodeIDs :: "beam \<Rightarrow> nat option list outcome" where
  "getNodeIDs b =
     (if Nnodes b < length (nodes b) then Raised IndexError
      else Returned (map node_ID (nodes b) @ replicate (Nnodes b - length (nodes b)) None))"

definition getLength :: "beam \<Rightarrow> real outcome" where
  "getLength b =
     (case nodes b of [] \<Rightarrow> Raised IndexError
      | _ # _ \<Rightarrow> Returned (node_x (last (nodes b)) - node_x (hd (nodes b))))"

subsection \<open>The float64 copy of a coordinate\<close>

text \<open>
  \<^verbatim>\<open>xcoords = np.zeros(self.Nnodes)\<close> is an array of float64, and \<^verbatim>\<open>xcoords[ii] = node.x\<close>
  converts the coordinate: a float is stored as it is, an int is rounded to the nearest
  float64, ties to the even significand, and an int beyond the range of float64 raises
  OverflowError. \<open>binade a\<close> is the exponent \<open>e\<close> with \<open>2^e \<le> a < 2^(e+1)\<close> for \<open>a > 0\<close>; a
  float64 has 53 significant bits, exponents from -1022 (below which the spacing stays
  \<open>2^-1074\<close>) to 1023.
\<close>

definition two_pow :: "int \<Rightarrow> real" where
  "two_pow k = (if 0 \<le> k then 2 ^ nat k else 1 / 2 ^ nat (- k))"

definition binade :: "real \<Rightarrow> int" where
  "binade a =
     (if 1 \<le> a then bitlen \<lfloor>a\<rfloor> - 1
      else let k = bitlen \<lfloor>1 / a\<rfloor> - 1 in if 1 / a = two_pow k then - k else - k - 1)"

definition round_half_even :: "real \<Rightarrow> int" where
  "round_half_even q =
     (let f = \<lfloor>q\<rfloor>; r = q - of_int f
      in if r < 1 / 2 then f else if 1 / 2 < r then f + 1 else if even f then f else f + 1)"

definition float64 :: "real \<Rightarrow> real outcome" where
  "float64 x =
     (if x = 0 then Returned 0
      else
        let a = \<bar>x\<bar>; e = binade a
        in if 1024 \<le> e then Raised OverflowError
           else
             let ulp = two_pow (max e (- 1022) - 52);
                 n = round_half_even (a / ulp)
             in if e = 1023 \<and> n = 9007199254740992 then Raised OverflowError
                else Returned (sgn x * (of_int n * ulp)))"

text \<open>A coordinate that its float64 copy reproduces: every float, and the ints that fit
  into 53 significant bits.\<close>

definition representable :: "real \<Rightarrow> bool" where
  "representable x \<longleftrightarrow> float64 x = Returned x"

text \<open>The loop \<^verbatim>\<open>for ii, node in enumerate(self.nodes): xcoords[ii] = node.x\<close> on an array
  of \<open>k\<close> entries still to fill: an index past the array raises IndexError.\<close>

fun float_copy :: "nat \<Rightarrow> node list \<Rightarrow> real list outcome" where
  "float_copy k [] = Returned []"
| "float_copy 0 (n # ns) = Raised IndexError"
| "float_copy (Suc k) (n # ns) =
     (case float64 (node_x n) of
        Raised e \<Rightarrow> Raised e
      | Returned v \<Rightarrow>
          (case float_copy k ns of
             Raised e \<Rightarrow> Raised e
           | Returned vs \<Rightarrow> Returned (v # vs)))"

subsection \<open>Sorting and remapping\<close>

text \<open>
  \<^verbatim>\<open>np.argsort\<close>: the indices that sort the keys ascending. With pairwise different keys
  every sorting algorithm gives the same indices. Equal keys arise only when two
  coordinates have the same float64 copy; the model keeps them in their order (the stable
  insertion sort of the library, which is also what NumPy runs on short arrays), and no
  theorem below depends on the order of equal keys.
\<close>

definition argsort :: "real list \<Rightarrow> nat list" where
  "argsort xcoords = sort_key (\<lambda>i. xcoords ! i) [0..<length xcoords]"

definition resetNodeID :: "beam \<Rightarrow> beam" where
  "resetNodeID b =
     b\<lparr>nodes := map (\<lambda>(ii, n). n\<lparr>node_ID := Some (ii + 1)\<rparr>) (enumerate 0 (nodes b))\<rparr>"

text \<open>\<^verbatim>\<open>newLabel[label] = sortedInd[oldLabels[label]]\<close>; an index outside \<^verbatim>\<open>sortedInd\<close>
  raises before \<^verbatim>\<open>self.nodeLabels\<close> is assigned.\<close>

definition remapLabels :: "beam \<Rightarrow> nat list \<Rightarrow> unit outcome \<times> beam" where
  "remapLabels b sortedInd =
     (if list_ex (\<lambda>(l, i). length sortedInd \<le> i) (nodeLabels b) then (Raised IndexError, b)
      else (Returned (),
            b\<lparr>nodeLabels := map (\<lambda>(l, i). (l, sortedInd ! i)) (nodeLabels b)\<rparr>))"

text \<open>The loop of \<^verbatim>\<open>_remapPointLoads\<close>: each load is rewritten in turn; a load whose
  \<^verbatim>\<open>nodeID\<close> is not among \<^verbatim>\<open>sortedIDs\<close> raises IndexError (\<^verbatim>\<open>[0][0]\<close> of an empty array)
  with the loads before it already rewritten.\<close>

fun remapLoads :: "nat option list \<Rightarrow> pointLoad list \<Rightarrow> unit outcome \<times> pointLoad list" where
  "remapLoads sortedIDs [] = (Returned (), [])"
| "remapLoads sortedIDs (p # ps) =
     (case first_index (\<lambda>v. v = Some (pl_nodeID p)) sortedIDs of
        None \<Rightarrow> (Raised IndexError, p # ps)
      | Some j \<Rightarrow>
          (case remapLoads sortedIDs ps of
             (r, ps') \<Rightarrow> (r, p\<lparr>pl_nodeID := j + 1\<rparr> # ps')))"

definition remapPointLoads :: "beam \<Rightarrow> nat option list \<Rightarrow> nat list \<Rightarrow> unit outcome \<times> beam" where
  "remapPointLoads b oldIDs sortedInd =
     (let sortedIDs = map (\<lambda>i. oldIDs ! i) sortedInd in
      case remapLoads sortedIDs (pointLoads b) of
        (r, ps') \<Rightarrow> (r, b\<lparr>pointLoads := ps'\<rparr>))"

text \<open>
  \<^verbatim>\<open>_sortNodes\<close>. The keys are the float64 copies of the coordinates. \<^verbatim>\<open>xcoords\<close> and the list
  of \<^verbatim>\<open>getNodeIDs\<close> have \<^verbatim>\<open>Nnodes\<close> entries: with more nodes than \<^verbatim>\<open>Nnodes\<close> the assignment
  \<^verbatim>\<open>xcoords[ii] = node.x\<close> raises IndexError, with fewer the padding indices make
  \<^verbatim>\<open>np.array(self.nodes)[sortedInd]\<close> raise IndexError; these and the OverflowError of the
  copy happen before anything is assigned.
\<close>

definition sortNodes :: "beam \<Rightarrow> unit outcome \<times> beam" where
  "sortNodes b =
     (case float_copy (Nnodes b) (nodes b) of
        Raised e \<Rightarrow> (Raised e, b)
      | Returned vs \<Rightarrow>
          let xcoords = vs @ replicate (Nnodes b - length (nodes b)) 0 in
          (case getNodeIDs b of
             Raised e \<Rightarrow> (Raised e, b)
           | Returned oldInd \<Rightarrow>
               let sortedInd = argsort xcoords in
               if list_ex (\<lambda>i. length (nodes b) \<le> i) sortedInd then (Raised IndexError, b)
               else
                 let b1 = b\<lparr>nodes := map (\<lambda>i. nodes b ! i) sortedInd\<rparr>;
                     b2 = resetNodeID b1
                 in (case remapLabels b2 sortedInd of
                       (Raised e, b3) \<Rightarrow> (Raised e, b3)
                     | (Returned u, b3) \<Rightarrow> remapPointLoads b3 oldInd sortedInd)))"

subsection \<open>Adding nodes\<close>

definition addNewNode :: "beam \<Rightarrow> node \<Rightarrow> bool \<Rightarrow> unit outcome \<times> beam" where
  "addNewNode b newNode srt =
     (let n = Nnodes b + 1;
          b1 = b\<lparr>Nnodes := n,
                 nodes := nodes b @ [newNode\<lparr>node_ID := Some n\<rparr>],
                 nodeCoords := finsert (node_x newNode) (nodeCoords b)\<rparr>
      in if srt then sortNodes b1 else (Returned (), b1))"

text \<open>
  \<^verbatim>\<open>addNode\<close>. The node is constructed first. At a coordinate of \<^verbatim>\<open>nodeCoords\<close> the new
  node takes the identifier of the node found there and replaces it, and the call returns 0
  without sorting; otherwise \<^verbatim>\<open>_addNewNode\<close> appends it (and sorts on request; an
  exception of the sort leaves the node appended) and the call returns 1. The
  final \<^verbatim>\<open>return -1\<close> follows two returning branches. \<^verbatim>\<open>self.nodes[None]\<close> raises
  TypeError.
\<close>

definition addNode ::
  "beam \<Rightarrow> real \<Rightarrow> int list option \<Rightarrow> string option \<Rightarrow> bool \<Rightarrow> int outcome \<times> beam" where
  "addNode b x fixity label srt =
     (let fixity' = (case fixity of None \<Rightarrow> replicate (ndf b) 0 | Some f \<Rightarrow> f) in
      case Node_init x fixity' label of
        Raised e \<Rightarrow> (Raised e, b)
      | Returned newNode \<Rightarrow>
          if x |\<in>| nodeCoords b then
            (case findNode b x of
               None \<Rightarrow> (Raised TypeError, b)
             | Some index \<Rightarrow>
                 let nodeID = node_ID (nodes b ! index);
                     newNode1 = newNode\<lparr>node_ID := nodeID\<rparr>;
                     newNode2 = (if label \<noteq> None then newNode1\<lparr>node_label := label\<rparr>
                                 else newNode1)
                 in (Returned 0, b\<lparr>nodes := (nodes b)[index := newNode2]\<rparr>))
          else
            (case addNewNode b newNode srt of
               (Raised e, b') \<Rightarrow> (Raised e, b')
             | (Returned u, b') \<Rightarrow> (Returned 1, b')))"

definition addLabel :: "beam \<Rightarrow> real \<Rightarrow> string option \<Rightarrow> bool \<Rightarrow> int outcome \<times> beam" where
  "addLabel b x label srt =
     (case Node_init x (replicate (ndf b) 0) label of
        Raised e \<Rightarrow> (Raised e, b)
      | Returned newNode \<Rightarrow>
          if x |\<in>| nodeCoords b then
            (case findNode b x of
               None \<Rightarrow> (Raised TypeError, b)
             | Some index \<Rightarrow>
                 (Returned 0,
                  b\<lparr>nodes := (nodes b)[index := (nodes b ! index)\<lparr>node_label := label\<rparr>]\<rparr>))
          else
            (case addNewNode b newNode srt of
               (Raised e, b') \<Rightarrow> (Raised e, b')
             | (Returned u, b') \<Rightarrow> (Returned 1, b')))"

text \<open>
  The loop of \<^verbatim>\<open>addNodes\<close>: \<^verbatim>\<open>self.addNode(xCoords[ii], fixities[ii], labels[ii], sort)\<close>
  with \<^verbatim>\<open>sort = False\<close>. The three lists are walked together; \<^verbatim>\<open>fixities[ii]\<close> or
  \<^verbatim>\<open>labels[ii]\<close> past the end raises IndexError and leaves the nodes added so far.
\<close>

fun addNodes_loop ::
  "beam \<Rightarrow> real list \<Rightarrow> int list list \<Rightarrow> string option list \<Rightarrow> unit outcome \<times> beam" where
  "addNodes_loop b [] fs ls = (Returned (), b)"
| "addNodes_loop b (x # xs) [] ls = (Raised IndexError, b)"
| "addNodes_loop b (x # xs) (f # fs) [] = (Raised IndexError, b)"
| "addNodes_loop b (x # xs) (f # fs) (l # ls) =
     (case addNode b x (Some f) l False of
        (Raised e, b') \<Rightarrow> (Raised e, b')
      | (Returned u, b') \<Rightarrow> addNodes_loop b' xs fs ls)"

definition addNodes ::
  "beam \<Rightarrow> real list \<Rightarrow> int list list option \<Rightarrow> string option list option
     \<Rightarrow> unit outcome \<times> beam" where
  "addNodes b xCoords fixities labels =
     (let newNoads = length xCoords;
          fixities' = (case fixities of None \<Rightarrow> replicate newNoads (replicate (ndf b) 0)
                       | Some fs \<Rightarrow> fs);
          labels' = (case labels of None \<Rightarrow> replicate newNoads None | Some ls \<Rightarrow> ls)
      in case addNodes_loop b xCoords fixities' labels' of
           (Raised e, b') \<Rightarrow> (Raised e, b')
         | (Returned u, b') \<Rightarrow> sortNodes b')"

subsection \<open>Fixity\<close>

datatype fixityInput = FixInt int | FixVec "int list"

definition checkfixityInput :: "beam \<Rightarrow> int list \<Rightarrow> unit outcome" where
  "checkfixityInput b fixity =
     (if \<not> list_all (\<lambda>v. v = 0 \<or> v = 1) fixity then Raised ValueError
      else if length fixity = 2 \<or> length fixity > ndf b then Raised ValueError
      else Returned ())"

definition convertFixityInput :: "beam \<Rightarrow> fixityInput \<Rightarrow> int list" where
  "convertFixityInput b fixity =
     (case fixity of FixInt v \<Rightarrow> replicate (ndf b) v | FixVec f \<Rightarrow> f)"

text \<open>Python's truth value of a label: \<^verbatim>\<open>None\<close> and \<^verbatim>\<open>''\<close> are false.\<close>

definition truthy :: "string option \<Rightarrow> bool" where
  "truthy label = (case label of None \<Rightarrow> False | Some s \<Rightarrow> s \<noteq> [])"

definition setFixity ::
  "beam \<Rightarrow> real \<Rightarrow> fixityInput \<Rightarrow> string option \<Rightarrow> unit outcome \<times> beam" where
  "setFixity b x fixityIn label =
     (let fixity = convertFixityInput b fixityIn in
      case checkfixityInput b fixity of
        Raised e \<Rightarrow> (Raised e, b)
      | Returned u \<Rightarrow>
          if x |\<in>| nodeCoords b then
            (case findNode b x of
               None \<Rightarrow> (Raised TypeError, b)
             | Some index \<Rightarrow>
                 let n1 = (nodes b ! index)\<lparr>node_fixity := fixity, node_hasReaction := True\<rparr>;
                     n2 = (if truthy label then n1\<lparr>node_label := label\<rparr> else n1)
                 in (Returned (), b\<lparr>nodes := (nodes b)[index := n2]\<rparr>))
          else
            (case addNode b x (Some fixity) label True of
               (Raised e, b') \<Rightarrow> (Raised e, b')
             | (Returned v, b') \<Rightarrow> (Returned (), b')))"

subsection \<open>Loads on the beam\<close>

text \<open>\<^verbatim>\<open>addPointLoad\<close>; the load vector is a list, so the \<^verbatim>\<open>__iter__\<close> test passes.\<close>

definition addPointLoad ::
  "beam \<Rightarrow> real \<Rightarrow> real list \<Rightarrow> string option \<Rightarrow> unit outcome \<times> beam" where
  "addPointLoad b x pointLoad label =
     (let loadID = length (pointLoads b) + 1 in
      case (if x |\<in>| nodeCoords b then (Returned 0, b)
            else addNode b x None (Some []) True) of
        (Raised e, b1) \<Rightarrow> (Raised e, b1)
      | (Returned v, b1) \<Rightarrow>
          (case findNode b1 x of
             None \<Rightarrow> (Raised TypeError, b1)
           | Some nodeIndex \<Rightarrow>
               let n = nodes b1 ! nodeIndex;
                   n1 = n\<lparr>node_pointLoadIDs := node_pointLoadIDs n @ [loadID]\<rparr>;
                   n2 = (if truthy label then n1\<lparr>node_label := label\<rparr> else n1);
                   nodeID = nodeIndex + 1;
                   newLoad = \<lparr>pl_P = pointLoad, pl_x = x, pl_nodeID = nodeID, pl_label = []\<rparr>
               in (Returned (),
                   b1\<lparr>nodes := (nodes b1)[nodeIndex := n2],
                      pointLoads := pointLoads b1 @ [newLoad]\<rparr>)))"

definition addDistLoad ::
  "beam \<Rightarrow> real \<Rightarrow> real \<Rightarrow> real list \<Rightarrow> string \<Rightarrow> unit outcome \<times> beam" where
  "addDistLoad b x1 x2 distLoad label =
     (let defaultFixity = replicate (ndf b) 0 in
      case (if x1 |\<notin>| nodeCoords b then addNode b x1 (Some defaultFixity) (Some []) True
            else (Returned 0, b)) of
        (Raised e, b1) \<Rightarrow> (Raised e, b1)
      | (Returned v, b1) \<Rightarrow>
          (case (if x2 |\<notin>| nodeCoords b1 then addNode b1 x2 (Some defaultFixity) (Some []) True
                 else (Returned 0, b1)) of
             (Raised e, b2) \<Rightarrow> (Raised e, b2)
           | (Returned w, b2) \<Rightarrow>
               (Returned (),
                b2\<lparr>eleLoads := eleLoads b2 @
                     [\<lparr>el_x1 = x1, el_x2 = x2, el_P = distLoad, el_label = label\<rparr>]\<rparr>)))"

subsection \<open>Extreme internal forces\<close>

text \<open>Python indexing of a sequence: a negative index counts from the end.\<close>

definition py_index :: "'a list \<Rightarrow> int \<Rightarrow> 'a outcome" where
  "py_index xs i =
     (let n = int (length xs); j = (if i < 0 then n + i else i)
      in if 0 \<le> j \<and> j < n then Returned (xs ! nat j) else Raised IndexError)"

text \<open>The loop of \<^verbatim>\<open>Fmax\<close> with its two running values; \<^verbatim>\<open>node.Fint\<close> is \<^verbatim>\<open>None\<close> until
  the analysis has run, and subscripting \<^verbatim>\<open>None\<close> raises TypeError.\<close>

fun Fmax_loop :: "nat \<Rightarrow> int \<Rightarrow> node list \<Rightarrow> real \<Rightarrow> real \<Rightarrow> (real \<times> real) outcome" where
  "Fmax_loop nd index [] Fmin Fmx = Returned (Fmin, Fmx)"
| "Fmax_loop nd index (n # ns) Fmin Fmx =
     (case node_Fint n of
        None \<Rightarrow> Raised TypeError
      | Some fint \<Rightarrow>
          (case py_index fint index of
             Raised e \<Rightarrow> Raised e
           | Returned F1 \<Rightarrow>
               (case py_index fint (index + int nd) of
                  Raised e \<Rightarrow> Raised e
                | Returned F2 \<Rightarrow>
                    Fmax_loop nd index ns
                      (if F1 < Fmin \<or> F2 < Fmin then min F1 F2 else Fmin)
                      (if Fmx < F1 \<or> Fmx < F2 then max F1 F2 else Fmx))))"

definition Fmax :: "beam \<Rightarrow> int \<Rightarrow> (real \<times> real) outcome" where
  "Fmax b index = Fmax_loop (ndf b) index (nodes b) 0 0"

subsection \<open>EulerBeam\<close>

definition initFixities :: "beam \<Rightarrow> int list list \<Rightarrow> nat \<Rightarrow> int list list outcome" where
  "initFixities b fixities NnewNodes =
     (let fixities' = (if length fixities = 0 then replicate NnewNodes (replicate (ndf b) 0)
                       else fixities)
      in if length fixities' \<noteq> NnewNodes then Raised Exception else Returned fixities')"

text \<open>\<^verbatim>\<open>EulerBeam.__init__\<close>; the arguments left at \<^verbatim>\<open>None\<close> become empty lists.\<close>

definition EulerBeam ::
  "real list option \<Rightarrow> int list list option \<Rightarrow> string option list option \<Rightarrow> dimension
     \<Rightarrow> unit outcome \<times> beam" where
  "EulerBeam xcoords fixities labels d =
     (let b = initBeam d;
          xcoords' = (case xcoords of None \<Rightarrow> [] | Some xs \<Rightarrow> xs);
          fixities' = (case fixities of None \<Rightarrow> [] | Some fs \<Rightarrow> fs);
          labels' = (case labels of None \<Rightarrow> [] | Some ls \<Rightarrow> ls);
          NnewNodes = length xcoords'
      in case initFixities b fixities' NnewNodes of
           Raised e \<Rightarrow> (Raised e, b)
         | Returned fixities'' \<Rightarrow>
             let labels'' = (if length labels' = 0 then replicate NnewNodes None else labels')
             in if length xcoords' \<noteq> 0 then addNodes b xcoords' (Some fixities'') (Some labels'')
                else (Returned (), b))"

subsection \<open>Reachable beams\<close>

text \<open>
  The beams a program can hold: a constructed \<^verbatim>\<open>EulerBeam\<close>, and whatever a public
  mutating method leaves behind, whether it returned or raised.
\<close>

inductive reachable :: "beam \<Rightarrow> bool" where
  r_init: "EulerBeam xcoords fixities labels d = (Returned (), b) \<Longrightarrow> reachable b"
| r_addNode: "reachable b \<Longrightarrow> reachable (snd (addNode b x fixity label srt))"
| r_addLabel: "reachable b \<Longrightarrow> reachable (snd (addLabel b x label srt))"
| r_addNodes: "reachable b \<Longrightarrow> reachable (snd (addNodes b xCoords fixities labels))"
| r_setFixity: "reachable b \<Longrightarrow> reachable (snd (setFixity b x fixityIn label))"
| r_addPointLoad: "reachable b \<Longrightarrow> reachable (snd (addPointLoad b x pointLoad label))"
| r_addDistLoad: "reachable b \<Longrightarrow> reachable (snd (addDistLoad b x1 x2 distLoad lbl))"

subsection \<open>Runs of insertions\<close>

text \<open>
  A run of node insertions, each with the resort it triggers: calls of \<^verbatim>\<open>addNode\<close> and
  \<^verbatim>\<open>addNodes\<close>, none of them at a coordinate of the set \<open>A\<close>.
\<close>

inductive insertions :: "real set \<Rightarrow> beam \<Rightarrow> beam \<Rightarrow> bool" for A :: "real set" and b :: beam where
  ins_none: "insertions A b b"
| ins_addNode: "insertions A b b1 \<Longrightarrow> x \<notin> A \<Longrightarrow>
     insertions A b (snd (addNode b1 x fixity label srt))"
| ins_addNodes: "insertions A b b1 \<Longrightarrow> set xCoords \<inter> A = {} \<Longrightarrow>
     insertions A b (snd (addNodes b1 xCoords fixities labels))"

text \<open>
  A run of insertions that leaves the label \<open>s\<close> of the node at \<open>c\<close> alone: none of
  them is at the coordinate \<open>c\<close>, and none of them hands out the label \<open>s\<close>.
\<close>

inductive otherInsertions :: "real \<Rightarrow> string \<Rightarrow> beam \<Rightarrow> beam \<Rightarrow> bool"
  for c :: real and s :: string and b :: beam where
  oi_none: "otherInsertions c s b b"
| oi_addNode: "otherInsertions c s b b1 \<Longrightarrow> x \<noteq> c \<Longrightarrow> label \<noteq> Some s \<Longrightarrow>
     otherInsertions c s b (snd (addNode b1 x fixity label srt))"
| oi_addNodes: "otherInsertions c s b b1 \<Longrightarrow> c \<notin> set xCoords \<Longrightarrow>
     Some s \<notin> set (case labels of None \<Rightarrow> [] | Some ls \<Rightarrow> ls) \<Longrightarrow>
     otherInsertions c s b (snd (addNodes b1 xCoords fixities labels))"

subsection \<open>The invariant of the registry\<close>

text \<open>
  What every reachable beam satisfies: the counter is the number of nodes, no two nodes
  share a coordinate, \<^verbatim>\<open>nodeCoords\<close> holds exactly the coordinates of the nodes, the node at
  list position \<open>i\<close> has identifier \<open>i + 1\<close>, every point load names the identifier of the
  node at its own coordinate, and \<^verbatim>\<open>nodeLabels\<close> is empty (no method writes an entry).
\<close>

definition beam_inv :: "beam \<Rightarrow> bool" where
  "beam_inv b \<longleftrightarrow>
     Nnodes b = length (nodes b) \<and>
     distinct (map node_x (nodes b)) \<and>
     fset (nodeCoords b) = node_x ` set (nodes b) \<and>
     (\<forall>i<length (nodes b). node_ID (nodes b ! i) = Some (i + 1)) \<and>
     (\<forall>p\<in>set (pointLoads b).
        \<exists>i<length (nodes b). node_x (nodes b ! i) = pl_x p \<and> pl_nodeID p = i + 1) \<and>
     nodeLabels b = []"

text \<open>A node without its identifier: what a resort leaves of it.\<close>

definition anon :: "node \<Rightarrow> node" where
  "anon n = n\<lparr>node_ID := None\<rparr>"

text \<open>
  Looking a label up. \<^verbatim>\<open>nodeLabels\<close> has no entry in any reachable beam, and the label of a
  node is read off the node (as the tests do), so the lookup of \<open>s\<close> is the scan of the node
  sequence for the label \<open>s\<close>: it yields the node at \<open>c\<close>, and no other node, when there is a
  node at \<open>c\<close> and a node carries \<open>s\<close> exactly if it is at \<open>c\<close>.
\<close>

definition labelMatches :: "string \<Rightarrow> real \<Rightarrow> node \<Rightarrow> bool" where
  "labelMatches s c n \<longleftrightarrow> (node_label n = Some s) = (node_x n = c)"

definition labelFinds :: "beam \<Rightarrow> string \<Rightarrow> real \<Rightarrow> bool" where
  "labelFinds b s c \<longleftrightarrow> findNode b c \<noteq> None \<and> list_all (labelMatches s c) (nodes b)"

text \<open>The values \<^verbatim>\<open>Fmax\<close> scans: the left and the right internal force of every node at
  the given component.\<close>

definition forceValues :: "beam \<Rightarrow> nat \<Rightarrow> real set" where
  "forceValues b k =
     (\<Union>n\<in>set (nodes b). {the (node_Fint n) ! k, the (node_Fint n) ! (k + ndf b)})"

text \<open>The two halves of the sort invariant: neighbours are in strictly ascending position,
  and the node at list position \<open>i\<close> has identifier \<open>i + 1\<close>.\<close>

definition sortedByPosition :: "beam \<Rightarrow> bool" where
  "sortedByPosition b \<longleftrightarrow>
     (\<forall>i. i + 1 < length (nodes b) \<longrightarrow> node_x (nodes b ! i) < node_x (nodes b ! (i + 1)))"

definition numberedByRank :: "beam \<Rightarrow> bool" where
  "numberedByRank b \<longleftrightarrow> (\<forall>i<length (nodes b). node_ID (nodes b ! i) = Some (i + 1))"

subsection \<open>The scenarios of the specification and of the tests\<close>

text \<open>Nodes at 0 and 5, fixed, labelled A and B (\<^verbatim>\<open>test_labeling.py\<close>).\<close>

definition scenA :: beam where
  "scenA = snd (EulerBeam (Some [0, 5]) (Some [[1, 1, 1], [1, 1, 1]])
                  (Some [Some ''A'', Some ''B'']) D2)"

text \<open>\<^verbatim>\<open>test_labels_new_node\<close>: new nodes at 3 (D), then at 6 (C).\<close>

definition scenC :: beam where
  "scenC = snd (addNode (snd (addNode scenA 3 None (Some ''D'') True)) 6 None (Some ''C'') True)"

text \<open>A free mesh at 0, 2.5 and 5; then a point load at 2.5; then a new node at 1.\<close>

definition scenE0 :: beam where
  "scenE0 = snd (EulerBeam (Some [0, 5 / 2, 5]) None None D2)"

definition scenE1 :: beam where
  "scenE1 = snd (addPointLoad scenE0 (5 / 2) [0, 10, 0] (Some []))"

definition scenE2 :: beam where
  "scenE2 = snd (addNode scenE1 1 None (Some []) True)"

text \<open>Two nodes added without sorting, at 5 and then at 0, on an empty beam.\<close>

definition unsortedBeam :: beam where
  "unsortedBeam =
     snd (addNode (snd (addNode (snd (EulerBeam None None None D2)) 5 None (Some []) False))
            0 None (Some []) False)"

text \<open>Two int coordinates with the same float64 copy, the larger one first.\<close>

definition bigIntBeam :: beam where
  "bigIntBeam =
     snd (EulerBeam (Some [9007199254740993, 9007199254740992]) None None D2)"

text \<open>A beam with the single node at 5.\<close>

definition oneNodeBeam :: beam where
  "oneNodeBeam = snd (EulerBeam (Some [5]) None None D2)"

text \<open>The beam of scenario A after an analysis has written internal forces that are all
  positive.\<close>

definition analysedBeam :: beam where
  "analysedBeam =
     scenA\<lparr>nodes := map (\<lambda>n. n\<lparr>node_Fint := Some [1, 2, 3, 4, 5, 6]\<rparr>) (nodes scenA)\<rparr>"

section \<open>Properties\<close>

subsection \<open>Searching and sorting\<close>

lemma first_index_Some:
  "first_index P xs = Some i \<Longrightarrow> i < length xs \<and> P (xs ! i) \<and> (\<forall>j<i. \<not> P (xs ! j))"
proof (induction xs arbitrary: i)
  case Nil
  then show ?case by simp
next
  case (Cons y ys)
  show ?case
  proof (cases "P y")
    case True
    with Cons.prems show ?thesis by simp
  next
    case False
    with Cons.prems obtain k where k: "first_index P ys = Some k" "i = Suc k"
      by auto
    from Cons.IH[OF k(1)] False k(2) show ?thesis
      by (auto simp: nth_Cons split: nat.splits)
  qed
qed

lemma first_index_None: "first_index P xs = None \<longleftrightarrow> (\<forall>x\<in>set xs. \<not> P x)"
  by (induction xs) auto

lemma first_index_unique:
  assumes "i < length xs" "P (xs ! i)" "\<forall>j<length xs. P (xs ! j) \<longrightarrow> j = i"
  shows "first_index P xs = Some i"
proof (cases "first_index P xs")
  case None
  with assms(1,2) show ?thesis by (auto simp: first_index_None)
next
  case (Some k)
  from first_index_Some[OF Some] assms(3) show ?thesis using Some by auto
qed

lemma findNode_distinct:
  assumes "distinct (map node_x (nodes b))" "i < length (nodes b)"
  shows "findNode b (node_x (nodes b ! i)) = Some i"
  unfolding findNode_def
proof (rule first_index_unique)
  show "i < length (nodes b)" by fact
  show "node_x (nodes b ! i) = node_x (nodes b ! i)" by simp
  show "\<forall>j<length (nodes b). node_x (nodes b ! i) = node_x (nodes b ! j) \<longrightarrow> j = i"
    using assms by (auto simp: distinct_conv_nth)
qed

lemma findNode_SomeD:
  "findNode b c = Some i \<Longrightarrow> i < length (nodes b) \<and> node_x (nodes b ! i) = c"
  unfolding findNode_def by (drule first_index_Some) simp

lemma findNode_coords:
  assumes "fset (nodeCoords b) = node_x ` set (nodes b)" "c |\<in>| nodeCoords b"
  shows "\<exists>i. findNode b c = Some i"
proof (cases "findNode b c")
  case None
  then have "\<forall>n\<in>set (nodes b). c \<noteq> node_x n"
    by (simp add: findNode_def first_index_None)
  with assms show ?thesis by auto
qed simp

lemma set_argsort: "set (argsort xs) = {0..<length xs}"
  by (simp add: argsort_def)

lemma length_argsort: "length (argsort xs) = length xs"
  by (simp add: argsort_def)

lemma distinct_argsort: "distinct (argsort xs)"
  by (simp add: argsort_def)

lemma sorted_argsort: "sorted (map (\<lambda>i. xs ! i) (argsort xs))"
  unfolding argsort_def by (rule sorted_sort_key)

lemma argsort_nth_less: "j < length xs \<Longrightarrow> argsort xs ! j < length xs"
  using set_argsort[of xs] length_argsort[of xs] nth_mem[of j "argsort xs"] by auto

lemma strict_sorted_argsort:
  assumes "distinct xs"
  shows "sorted_wrt (<) (map (\<lambda>i. xs ! i) (argsort xs))"
proof -
  have "inj_on (\<lambda>i. xs ! i) (set (argsort xs))"
    using assms by (intro inj_on_nth) (auto simp: set_argsort)
  then have "distinct (map (\<lambda>i. xs ! i) (argsort xs))"
    by (simp add: distinct_map distinct_argsort)
  with sorted_argsort[of xs] show ?thesis
    by (simp add: strict_sorted_iff)
qed

lemma argsort_surj:
  assumes "i < length xs"
  shows "\<exists>j<length xs. argsort xs ! j = i"
proof -
  from assms have "i \<in> set (argsort xs)" by (simp add: set_argsort)
  then obtain j where "j < length (argsort xs)" "argsort xs ! j = i"
    by (auto simp: in_set_conv_nth)
  then show ?thesis by (auto simp: length_argsort)
qed

subsection \<open>The float64 copy\<close>

text \<open>The conversion at some values: a float and small ints are kept, an int of 54 bits is
  rounded to the even neighbour, a fraction that is no float64 is rounded.\<close>

lemma float64_examples:
  "float64 (5 / 2) = Returned (5 / 2)"
  "float64 (- 1) = Returned (- 1)"
  "float64 9007199254740992 = Returned 9007199254740992"
  "float64 9007199254740993 = Returned 9007199254740992"
  "float64 9007199254740995 = Returned 9007199254740996"
  "float64 (1 / 10) = Returned (3602879701896397 / 2 ^ 55)"
  by code_simp+

lemma float64_overflow:
  "x \<noteq> 0 \<Longrightarrow> 1024 \<le> binade \<bar>x\<bar> \<Longrightarrow> float64 x = Raised OverflowError"
  by (simp add: float64_def Let_def)

lemma float_copy_length:
  "float_copy k ns = Returned vs \<Longrightarrow> length vs = length ns"
proof (induction k ns arbitrary: vs rule: float_copy.induct)
  case (3 k n ns)
  then show ?case by (auto split: outcome.splits)
qed simp_all

lemma float_copy_exact:
  "length ns \<le> k \<Longrightarrow> list_all representable (map node_x ns) \<Longrightarrow>
     float_copy k ns = Returned (map node_x ns)"
proof (induction k ns rule: float_copy.induct)
  case (3 k n ns)
  then show ?case by (simp add: representable_def)
qed simp_all

subsection \<open>Nodes up to their identifier\<close>

lemma anon_fields [simp]:
  "node_x (anon n) = node_x n" "node_label (anon n) = node_label n"
  "anon (n\<lparr>node_ID := d\<rparr>) = anon n"
  by (simp_all add: anon_def)

lemma labelMatches_anon: "labelMatches s c (anon n) = labelMatches s c n"
  by (simp add: labelMatches_def)

lemma labelMatches_transfer:
  assumes sub: "anon ` set ys \<subseteq> anon ` set xs" and all: "list_all (labelMatches s c) xs"
  shows "list_all (labelMatches s c) ys"
  unfolding list_all_iff
proof
  fix n assume "n \<in> set ys"
  with sub obtain m where m: "m \<in> set xs" "anon n = anon m" by blast
  from all m(1) have "labelMatches s c m" by (simp add: list_all_iff)
  then have "labelMatches s c (anon n)" by (simp add: m(2) labelMatches_anon)
  then show "labelMatches s c n" by (simp add: labelMatches_anon)
qed

lemma labelFinds_iff:
  assumes inv: "beam_inv b"
  shows "labelFinds b s c \<longleftrightarrow> c |\<in>| nodeCoords b \<and> list_all (labelMatches s c) (nodes b)"
proof -
  have "findNode b c \<noteq> None \<longleftrightarrow> c \<in> node_x ` set (nodes b)"
    by (auto simp: findNode_def first_index_None)
  with inv show ?thesis by (simp add: labelFinds_def beam_inv_def)
qed

subsection \<open>The resort\<close>

lemma remapLoads_ok:
  assumes "\<forall>p\<in>set ps. first_index (\<lambda>v. v = Some (pl_nodeID p)) ids \<noteq> None"
  shows "remapLoads ids ps =
           (Returned (),
            map (\<lambda>p. p\<lparr>pl_nodeID := the (first_index (\<lambda>v. v = Some (pl_nodeID p)) ids) + 1\<rparr>) ps)"
  using assms by (induction ps) auto

lemma sortNodes_eq:
  assumes "Nnodes b = length (nodes b)" "nodeLabels b = []"
    and fc: "float_copy (Nnodes b) (nodes b) = Returned vs"
  shows "sortNodes b =
     (case remapLoads (map (\<lambda>i. map node_ID (nodes b) ! i) (argsort vs)) (pointLoads b) of
        (r, ps) \<Rightarrow>
          (r, b\<lparr>nodes := map (\<lambda>(ii, n). n\<lparr>node_ID := Some (ii + 1)\<rparr>)
                            (enumerate 0 (map (\<lambda>i. nodes b ! i) (argsort vs))),
                nodeLabels := [], pointLoads := ps\<rparr>))"
proof -
  have len: "length vs = length (nodes b)" by (rule float_copy_length[OF fc])
  have "\<not> list_ex (\<lambda>i. length (nodes b) \<le> i) (argsort vs)"
    by (auto simp: list_ex_iff set_argsort len)
  then show ?thesis
    using assms len
    by (simp add: sortNodes_def getNodeIDs_def Let_def resetNodeID_def remapLabels_def
        remapPointLoads_def split: prod.splits)
qed

lemma sorted_nodes_nth:
  assumes "j < length \<sigma>"
  shows "map (\<lambda>(ii, n). n\<lparr>node_ID := Some (ii + 1)\<rparr>) (enumerate 0 (map (\<lambda>i. ns ! i) \<sigma>)) ! j
           = (ns ! (\<sigma> ! j))\<lparr>node_ID := Some (j + 1)\<rparr>"
  using assms by (simp add: nth_enumerate_eq)

text \<open>Once the copy is made the sort returns: the nodes are permuted by the indices that
  sort the copy, renumbered, and every load is led to the new identifier of its node.\<close>

lemma sortNodes_copy:
  assumes inv: "beam_inv b" and fc: "float_copy (Nnodes b) (nodes b) = Returned vs"
  shows "\<exists>b'. sortNodes b = (Returned (), b') \<and> beam_inv b' \<and>
           map node_x (nodes b') = map (\<lambda>i. map node_x (nodes b) ! i) (argsort vs) \<and>
           Nnodes b' = Nnodes b \<and> nodeCoords b' = nodeCoords b \<and> ndf b' = ndf b \<and>
           eleLoads b' = eleLoads b \<and> length (nodes b') = length (nodes b) \<and>
           map pl_x (pointLoads b') = map pl_x (pointLoads b) \<and>
           map pl_P (pointLoads b') = map pl_P (pointLoads b) \<and>
           anon ` set (nodes b') = anon ` set (nodes b)"
proof -
  define xs where "xs = map node_x (nodes b)"
  define \<sigma> where "\<sigma> = argsort vs"
  define n where "n = length (nodes b)"
  define ids where "ids = map (\<lambda>i. map node_ID (nodes b) ! i) \<sigma>"
  define ns where
    "ns = map (\<lambda>(ii, n). n\<lparr>node_ID := Some (ii + 1)\<rparr>) (enumerate 0 (map (\<lambda>i. nodes b ! i) \<sigma>))"
  define ps where
    "ps = map (\<lambda>p. p\<lparr>pl_nodeID := the (first_index (\<lambda>v. v = Some (pl_nodeID p)) ids) + 1\<rparr>)
            (pointLoads b)"
  define b' where "b' = b\<lparr>nodes := ns, nodeLabels := [], pointLoads := ps\<rparr>"
  from inv have cnt: "Nnodes b = n" and dist: "distinct xs"
    and coords: "fset (nodeCoords b) = set xs"
    and idsb: "\<And>i. i < n \<Longrightarrow> node_ID (nodes b ! i) = Some (i + 1)"
    and loads: "\<And>p. p \<in> set (pointLoads b) \<Longrightarrow>
                  \<exists>i<n. node_x (nodes b ! i) = pl_x p \<and> pl_nodeID p = i + 1"
    and labs: "nodeLabels b = []"
    by (auto simp: beam_inv_def xs_def n_def)
  have len_xs: "length xs = n" by (simp add: xs_def n_def)
  have len_vs: "length vs = n" using float_copy_length[OF fc] by (simp add: n_def)
  have len_\<sigma>: "length \<sigma> = n" by (simp add: \<sigma>_def length_argsort len_vs)
  have set_\<sigma>: "set \<sigma> = {0..<n}" by (simp add: \<sigma>_def set_argsort len_vs)
  have \<sigma>_lt: "\<And>j. j < n \<Longrightarrow> \<sigma> ! j < n"
    using argsort_nth_less[of _ vs] by (simp add: \<sigma>_def len_vs)
  have dist_\<sigma>: "distinct \<sigma>" by (simp add: \<sigma>_def distinct_argsort)
  have surj: "\<exists>j<n. \<sigma> ! j = i" if "i < n" for i
    using argsort_surj[of i vs] that by (simp add: \<sigma>_def len_vs)
  have len_ns: "length ns = n" by (simp add: ns_def len_\<sigma>)
  have ns_nth: "\<And>j. j < n \<Longrightarrow> ns ! j = (nodes b ! (\<sigma> ! j))\<lparr>node_ID := Some (j + 1)\<rparr>"
    unfolding ns_def using sorted_nodes_nth[of _ \<sigma> "nodes b"] by (simp add: len_\<sigma>)
  have xs_ns: "map node_x ns = map (\<lambda>i. xs ! i) \<sigma>"
  proof (rule nth_equalityI)
    show "length (map node_x ns) = length (map (\<lambda>i. xs ! i) \<sigma>)"
      by (simp add: len_ns len_\<sigma>)
  next
    fix j assume "j < length (map node_x ns)"
    then have j: "j < n" by (simp add: len_ns)
    with \<sigma>_lt[OF j] show "map node_x ns ! j = map (\<lambda>i. xs ! i) \<sigma> ! j"
      by (simp add: len_ns len_\<sigma> ns_nth xs_def n_def)
  qed
  have dist_ns: "distinct (map node_x ns)"
  proof -
    have "inj_on (\<lambda>i. xs ! i) (set \<sigma>)"
      using dist by (intro inj_on_nth) (auto simp: set_\<sigma> len_xs)
    then show ?thesis unfolding xs_ns by (simp add: distinct_map dist_\<sigma>)
  qed
  have ids_nth: "\<And>j. j < n \<Longrightarrow> ids ! j = Some (\<sigma> ! j + 1)"
    using \<sigma>_lt idsb by (simp add: ids_def len_\<sigma> n_def)
  have find: "\<exists>j<n. first_index (\<lambda>v. v = Some (i + 1)) ids = Some j \<and> \<sigma> ! j = i"
    if i: "i < n" for i
  proof -
    from surj[OF i] obtain j where j: "j < n" "\<sigma> ! j = i" by blast
    have "first_index (\<lambda>v. v = Some (i + 1)) ids = Some j"
    proof (rule first_index_unique)
      show "j < length ids" using j by (simp add: ids_def len_\<sigma>)
      show "ids ! j = Some (i + 1)" using j by (simp add: ids_nth)
      show "\<forall>k<length ids. ids ! k = Some (i + 1) \<longrightarrow> k = j"
      proof (intro allI impI)
        fix k assume k: "k < length ids" "ids ! k = Some (i + 1)"
        then have "k < n" by (simp add: ids_def len_\<sigma>)
        with k ids_nth[of k] have "\<sigma> ! k = \<sigma> ! j" using j by simp
        with dist_\<sigma> \<open>k < n\<close> j(1) show "k = j"
          using nth_eq_iff_index_eq[of \<sigma> k j] by (simp add: len_\<sigma>)
      qed
    qed
    with j show ?thesis by blast
  qed
  have found: "first_index (\<lambda>v. v = Some (pl_nodeID p)) ids \<noteq> None"
    if "p \<in> set (pointLoads b)" for p
    using loads[OF that] find by force
  then have rl: "remapLoads ids (pointLoads b) = (Returned (), ps)"
    unfolding ps_def by (intro remapLoads_ok) blast
  have eq: "sortNodes b = (Returned (), b')"
    using sortNodes_eq[OF _ labs fc] cnt rl
    by (simp add: ids_def \<sigma>_def n_def ns_def b'_def)
  have loads': "\<exists>j<n. node_x (ns ! j) = pl_x q \<and> pl_nodeID q = j + 1"
    if q: "q \<in> set ps" for q
  proof -
    from q obtain p where p: "p \<in> set (pointLoads b)"
      and qp: "q = p\<lparr>pl_nodeID := the (first_index (\<lambda>v. v = Some (pl_nodeID p)) ids) + 1\<rparr>"
      by (auto simp: ps_def)
    from loads[OF p] obtain i where i: "i < n" "node_x (nodes b ! i) = pl_x p" "pl_nodeID p = i + 1"
      by blast
    from find[OF i(1)] obtain j where j: "j < n"
      "first_index (\<lambda>v. v = Some (i + 1)) ids = Some j" "\<sigma> ! j = i"
      by blast
    have "node_x (ns ! j) = pl_x q" using j i qp by (simp add: ns_nth)
    moreover have "pl_nodeID q = j + 1" using j i qp by simp
    ultimately show ?thesis using j(1) by blast
  qed
  have inv': "beam_inv b'"
    unfolding beam_inv_def
  proof (intro conjI)
    show "Nnodes b' = length (nodes b')" by (simp add: b'_def cnt len_ns)
    show "distinct (map node_x (nodes b'))"
      using dist_ns by (simp add: b'_def)
    have "set (map (\<lambda>i. xs ! i) \<sigma>) = set xs"
      by (auto simp: set_\<sigma> len_xs in_set_conv_nth)
    moreover have "node_x ` set (nodes b') = set (map node_x ns)"
      by (simp add: b'_def)
    ultimately show "fset (nodeCoords b') = node_x ` set (nodes b')"
      by (simp add: b'_def coords xs_ns del: set_map)
    show "\<forall>i<length (nodes b'). node_ID (nodes b' ! i) = Some (i + 1)"
      by (simp add: b'_def len_ns ns_nth)
    show "\<forall>p\<in>set (pointLoads b').
            \<exists>i<length (nodes b'). node_x (nodes b' ! i) = pl_x p \<and> pl_nodeID p = i + 1"
      using loads' by (simp add: b'_def len_ns)
    show "nodeLabels b' = []" by (simp add: b'_def)
  qed
  have an: "anon (ns ! j) = anon (nodes b ! (\<sigma> ! j))" if "j < n" for j
    using that by (simp add: ns_nth)
  have anon_eq: "anon ` set ns = anon ` set (nodes b)"
  proof (intro set_eqI iffI)
    fix m assume "m \<in> anon ` set ns"
    then obtain j where j: "j < n" "m = anon (ns ! j)"
      by (auto simp: in_set_conv_nth len_ns)
    with an[OF j(1)] \<sigma>_lt[OF j(1)] show "m \<in> anon ` set (nodes b)"
      by (auto simp: n_def)
  next
    fix m assume "m \<in> anon ` set (nodes b)"
    then obtain i where i: "i < n" "m = anon (nodes b ! i)"
      by (auto simp: in_set_conv_nth n_def)
    from surj[OF i(1)] obtain j where j: "j < n" "\<sigma> ! j = i" by blast
    with an[OF j(1)] i have "m = anon (ns ! j)" by simp
    with j(1) show "m \<in> anon ` set ns"
      using nth_mem[of j ns] by (simp add: len_ns)
  qed
  have "map pl_x ps = map pl_x (pointLoads b)" "map pl_P ps = map pl_P (pointLoads b)"
    by (simp_all add: ps_def)
  with eq inv' anon_eq xs_ns show ?thesis
    by (intro exI[of _ b']) (simp add: b'_def len_ns n_def xs_def \<sigma>_def)
qed

text \<open>In every case the sort keeps the invariant, the coordinates, the loads and the nodes
  up to their identifiers; with representable coordinates it returns and the order is
  strict.\<close>

lemma sortNodes_inv:
  assumes inv: "beam_inv b"
  shows "\<exists>r b'. sortNodes b = (r, b') \<and> beam_inv b' \<and>
           Nnodes b' = Nnodes b \<and> nodeCoords b' = nodeCoords b \<and> ndf b' = ndf b \<and>
           eleLoads b' = eleLoads b \<and> length (nodes b') = length (nodes b) \<and>
           map pl_x (pointLoads b') = map pl_x (pointLoads b) \<and>
           map pl_P (pointLoads b') = map pl_P (pointLoads b) \<and>
           anon ` set (nodes b') = anon ` set (nodes b) \<and>
           (list_all representable (map node_x (nodes b)) \<longrightarrow>
              r = Returned () \<and> sorted_wrt (<) (map node_x (nodes b')))"
proof (cases "float_copy (Nnodes b) (nodes b)")
  case (Raised e)
  then have eq: "sortNodes b = (Raised e, b)" by (simp add: sortNodes_def)
  have "\<not> list_all representable (map node_x (nodes b))"
    using Raised float_copy_exact[of "nodes b" "Nnodes b"] inv by (auto simp: beam_inv_def)
  with eq inv show ?thesis
    by (intro exI[of _ "Raised e"] exI[of _ b]) simp
next
  case (Returned vs)
  from sortNodes_copy[OF inv Returned] obtain b' where b':
    "sortNodes b = (Returned (), b')" "beam_inv b'"
    "map node_x (nodes b') = map (\<lambda>i. map node_x (nodes b) ! i) (argsort vs)"
    "Nnodes b' = Nnodes b" "nodeCoords b' = nodeCoords b" "ndf b' = ndf b"
    "eleLoads b' = eleLoads b" "length (nodes b') = length (nodes b)"
    "map pl_x (pointLoads b') = map pl_x (pointLoads b)"
    "map pl_P (pointLoads b') = map pl_P (pointLoads b)"
    "anon ` set (nodes b') = anon ` set (nodes b)"
    by blast
  have "sorted_wrt (<) (map node_x (nodes b'))"
    if rep: "list_all representable (map node_x (nodes b))"
  proof -
    from inv have "length (nodes b) \<le> Nnodes b" and d: "distinct (map node_x (nodes b))"
      by (simp_all add: beam_inv_def)
    from float_copy_exact[OF this(1) rep] Returned have "vs = map node_x (nodes b)" by simp
    with b'(3) strict_sorted_argsort[OF d] show ?thesis by simp
  qed
  with b' show ?thesis
    by (intro exI[of _ "Returned ()"] exI[of _ b']) simp
qed

subsection \<open>The methods keep the invariant\<close>

lemma beam_inv_update:
  assumes inv: "beam_inv b" and i: "i < length (nodes b)"
    and x: "node_x n' = node_x (nodes b ! i)" and d: "node_ID n' = node_ID (nodes b ! i)"
  shows "beam_inv (b\<lparr>nodes := (nodes b)[i := n']\<rparr>)"
proof -
  have xs: "map node_x ((nodes b)[i := n']) = map node_x (nodes b)"
    using i x by (simp add: map_update list_update_same_conv)
  have nth: "\<And>k. k < length (nodes b) \<Longrightarrow> node_x ((nodes b)[i := n'] ! k) = node_x (nodes b ! k)"
    using x i by (simp add: nth_list_update)
  have idk: "\<And>k. k < length (nodes b) \<Longrightarrow> node_ID ((nodes b)[i := n'] ! k) = node_ID (nodes b ! k)"
    using d i by (simp add: nth_list_update)
  have "node_x ` set ((nodes b)[i := n']) = set (map node_x ((nodes b)[i := n']))"
    by simp
  then have st: "node_x ` set ((nodes b)[i := n']) = node_x ` set (nodes b)"
    unfolding xs by simp
  show ?thesis
    using inv unfolding beam_inv_def
    by (simp add: xs nth idk st cong: conj_cong)
qed

lemma beam_inv_append:
  assumes inv: "beam_inv b" and new: "node_x nn |\<notin>| nodeCoords b"
  shows "beam_inv (b\<lparr>Nnodes := Nnodes b + 1,
                      nodes := nodes b @ [nn\<lparr>node_ID := Some (Nnodes b + 1)\<rparr>],
                      nodeCoords := finsert (node_x nn) (nodeCoords b)\<rparr>)"
proof -
  from inv have cnt: "Nnodes b = length (nodes b)"
    and coords: "fset (nodeCoords b) = node_x ` set (nodes b)"
    by (auto simp: beam_inv_def)
  from new coords have notin: "node_x nn \<notin> node_x ` set (nodes b)"
    by simp
  have loads: "\<exists>i<Suc (length (nodes b)).
           node_x ((nodes b @ [nn\<lparr>node_ID := Some (Suc (length (nodes b)))\<rparr>]) ! i) = pl_x p \<and>
           pl_nodeID p = Suc i"
    if "\<exists>i<length (nodes b). node_x (nodes b ! i) = pl_x p \<and> pl_nodeID p = Suc i" for p
    using that by (auto simp: nth_append intro: less_SucI)
  show ?thesis
    using inv notin loads unfolding beam_inv_def
    by (auto simp: cnt nth_append less_Suc_eq)
qed

lemma addNewNode_inv:
  assumes inv: "beam_inv b" and new: "node_x nn |\<notin>| nodeCoords b"
  shows "\<exists>r b'. addNewNode b nn srt = (r, b') \<and> beam_inv b' \<and>
           Nnodes b' = Nnodes b + 1 \<and> nodeCoords b' = finsert (node_x nn) (nodeCoords b) \<and>
           ndf b' = ndf b \<and> eleLoads b' = eleLoads b \<and>
           length (nodes b') = length (nodes b) + 1 \<and>
           map pl_x (pointLoads b') = map pl_x (pointLoads b) \<and>
           map pl_P (pointLoads b') = map pl_P (pointLoads b) \<and>
           anon ` set (nodes b') = insert (anon nn) (anon ` set (nodes b)) \<and>
           (\<not> srt \<longrightarrow> r = Returned ()) \<and>
           (srt \<and> representable (node_x nn) \<and> list_all representable (map node_x (nodes b)) \<longrightarrow>
              r = Returned () \<and> sorted_wrt (<) (map node_x (nodes b')))"
proof -
  define b1 where "b1 = b\<lparr>Nnodes := Nnodes b + 1,
                      nodes := nodes b @ [nn\<lparr>node_ID := Some (Nnodes b + 1)\<rparr>],
                      nodeCoords := finsert (node_x nn) (nodeCoords b)\<rparr>"
  have inv1: "beam_inv b1" unfolding b1_def by (rule beam_inv_append[OF inv new])
  have an1: "anon ` set (nodes b1) = insert (anon nn) (anon ` set (nodes b))"
    by (simp add: b1_def)
  have rep1: "list_all representable (map node_x (nodes b1)) \<longleftrightarrow>
                representable (node_x nn) \<and> list_all representable (map node_x (nodes b))"
    by (auto simp: b1_def)
  show ?thesis
  proof (cases srt)
    case False
    then have "addNewNode b nn srt = (Returned (), b1)"
      by (simp add: addNewNode_def b1_def Let_def)
    then show ?thesis
      using inv1 an1 False by (intro exI[of _ "Returned ()"] exI[of _ b1]) (simp add: b1_def)
  next
    case True
    from sortNodes_inv[OF inv1] obtain r b' where b':
      "sortNodes b1 = (r, b')" "beam_inv b'"
      "Nnodes b' = Nnodes b1" "nodeCoords b' = nodeCoords b1" "ndf b' = ndf b1"
      "eleLoads b' = eleLoads b1" "length (nodes b') = length (nodes b1)"
      "map pl_x (pointLoads b') = map pl_x (pointLoads b1)"
      "map pl_P (pointLoads b') = map pl_P (pointLoads b1)"
      "anon ` set (nodes b') = anon ` set (nodes b1)"
      "list_all representable (map node_x (nodes b1)) \<longrightarrow>
              r = Returned () \<and> sorted_wrt (<) (map node_x (nodes b'))"
      by blast
    have "addNewNode b nn srt = (r, b')"
      using True b'(1) by (simp add: addNewNode_def b1_def Let_def)
    then show ?thesis
      using b'(2-10) b'(11)[unfolded rep1] an1 True
      by (intro exI[of _ r] exI[of _ b']) (simp add: b1_def)
  qed
qed

lemma Node_init_fields:
  assumes "Node_init x f l = Returned nn"
  shows "node_x nn = x" "node_label nn = l" "node_pointLoadIDs nn = []" "node_fixity nn = f"
  using assms by (auto simp: Node_init_def split: outcome.splits)

lemma addNode_flag: "fst (addNode b x f l s) = Returned v \<Longrightarrow> v = 0 \<or> v = 1"
  by (auto simp: addNode_def Let_def split: outcome.splits option.splits if_splits prod.splits)

lemma addNode_merge_eq:
  assumes "Node_init x (case f of None \<Rightarrow> replicate (ndf b) 0 | Some f' \<Rightarrow> f') l = Returned nn"
    and "x |\<in>| nodeCoords b" and "findNode b x = Some i"
  shows "addNode b x f l s =
           (Returned 0,
            b\<lparr>nodes := (nodes b)[i := nn\<lparr>node_ID := node_ID (nodes b ! i), node_label := l\<rparr>]\<rparr>)"
proof -
  have "nn\<lparr>node_label := l\<rparr> = nn"
    using Node_init_fields(2)[OF assms(1)] by (cases nn) simp
  then have "nn\<lparr>node_ID := d, node_label := l\<rparr> = nn\<lparr>node_ID := d\<rparr>" for d
    by (cases nn) simp
  with assms show ?thesis
    by (simp add: addNode_def Let_def)
qed

lemma addNode_new_eq:
  assumes "Node_init x (case f of None \<Rightarrow> replicate (ndf b) 0 | Some f' \<Rightarrow> f') l = Returned nn"
    and "x |\<notin>| nodeCoords b" and "addNewNode b nn s = (r, b')"
  shows "addNode b x f l s = ((case r of Raised e \<Rightarrow> Raised e | Returned u \<Rightarrow> Returned 1), b')"
  using assms by (cases r) (simp_all add: addNode_def Let_def)

lemma addNode_fail_eq:
  assumes "Node_init x (case f of None \<Rightarrow> replicate (ndf b) 0 | Some f' \<Rightarrow> f') l = Raised e"
  shows "addNode b x f l s = (Raised e, b)"
  using assms by (simp add: addNode_def Let_def)

lemma addNode_inv:
  assumes inv: "beam_inv b"
  shows "beam_inv (snd (addNode b x f l s))"
proof (cases "Node_init x (case f of None \<Rightarrow> replicate (ndf b) 0 | Some f' \<Rightarrow> f') l")
  case (Raised e)
  then show ?thesis using inv by (simp add: addNode_fail_eq)
next
  case (Returned nn)
  note nn = Node_init_fields[OF Returned]
  show ?thesis
  proof (cases "x |\<in>| nodeCoords b")
    case True
    with inv obtain i where i: "findNode b x = Some i"
      using findNode_coords[of b x] by (auto simp: beam_inv_def)
    from findNode_SomeD[OF i] have il: "i < length (nodes b)" and ix: "node_x (nodes b ! i) = x"
      by auto
    have "beam_inv (b\<lparr>nodes := (nodes b)[i := nn\<lparr>node_ID := node_ID (nodes b ! i), node_label := l\<rparr>]\<rparr>)"
      by (rule beam_inv_update[OF inv il]) (simp_all add: nn ix)
    then show ?thesis by (simp add: addNode_merge_eq[OF Returned True i])
  next
    case False
    then have "node_x nn |\<notin>| nodeCoords b" by (simp add: nn)
    from addNewNode_inv[OF inv this, of s] obtain r b' where
      "addNewNode b nn s = (r, b')" "beam_inv b'" by blast
    then show ?thesis by (simp add: addNode_new_eq[OF Returned False])
  qed
qed

lemma addNode_new_sorted:
  assumes inv: "beam_inv b" and new: "x |\<notin>| nodeCoords b"
    and rep: "list_all representable (x # map node_x (nodes b))"
    and ret: "fst (addNode b x f l True) = Returned r"
  shows "r = 1 \<and> sorted_wrt (<) (map node_x (nodes (snd (addNode b x f l True))))"
proof (cases "Node_init x (case f of None \<Rightarrow> replicate (ndf b) 0 | Some f' \<Rightarrow> f') l")
  case (Raised e)
  with ret show ?thesis by (simp add: addNode_fail_eq)
next
  case (Returned nn)
  note nn = Node_init_fields[OF Returned]
  from new have "node_x nn |\<notin>| nodeCoords b" by (simp add: nn)
  from addNewNode_inv[OF inv this, of True] rep obtain r' b' where
    "addNewNode b nn True = (r', b')" "r' = Returned ()"
    "sorted_wrt (<) (map node_x (nodes b'))"
    by (auto simp: nn)
  then show ?thesis using ret by (simp add: addNode_new_eq[OF Returned new])
qed

lemma addNode_coords:
  assumes inv: "beam_inv b"
  shows "fset (nodeCoords (snd (addNode b x f l s))) \<subseteq> insert x (fset (nodeCoords b)) \<and>
         fset (nodeCoords b) \<subseteq> fset (nodeCoords (snd (addNode b x f l s)))"
proof (cases "Node_init x (case f of None \<Rightarrow> replicate (ndf b) 0 | Some f' \<Rightarrow> f') l")
  case (Raised e)
  then show ?thesis by (auto simp: addNode_fail_eq)
next
  case (Returned nn)
  note nn = Node_init_fields[OF Returned]
  show ?thesis
  proof (cases "x |\<in>| nodeCoords b")
    case True
    with inv obtain i where i: "findNode b x = Some i"
      using findNode_coords[of b x] by (auto simp: beam_inv_def)
    show ?thesis by (auto simp: addNode_merge_eq[OF Returned True i])
  next
    case False
    then have "node_x nn |\<notin>| nodeCoords b" by (simp add: nn)
    from addNewNode_inv[OF inv this, of s] obtain r b' where
      "addNewNode b nn s = (r, b')" "nodeCoords b' = finsert (node_x nn) (nodeCoords b)"
      by blast
    then show ?thesis by (auto simp: addNode_new_eq[OF Returned False] nn)
  qed
qed

lemma addNode_labelMatches:
  assumes inv: "beam_inv b" and lm: "list_all (labelMatches s c) (nodes b)"
    and ne: "x \<noteq> c" and nl: "l \<noteq> Some s"
  shows "list_all (labelMatches s c) (nodes (snd (addNode b x f l sr)))"
proof (cases "Node_init x (case f of None \<Rightarrow> replicate (ndf b) 0 | Some f' \<Rightarrow> f') l")
  case (Raised e)
  then show ?thesis using lm by (simp add: addNode_fail_eq)
next
  case (Returned nn)
  note nn = Node_init_fields[OF Returned]
  have new: "labelMatches s c nn" using ne nl by (simp add: labelMatches_def nn)
  show ?thesis
  proof (cases "x |\<in>| nodeCoords b")
    case True
    with inv obtain i where i: "findNode b x = Some i"
      using findNode_coords[of b x] by (auto simp: beam_inv_def)
    have "labelMatches s c (nn\<lparr>node_ID := d, node_label := l\<rparr>)" for d
      using ne nl by (simp add: labelMatches_def nn)
    with lm show ?thesis
      using set_update_subset_insert[of "nodes b" i]
      by (auto simp: addNode_merge_eq[OF Returned True i] list_all_iff)
  next
    case False
    then have "node_x nn |\<notin>| nodeCoords b" by (simp add: nn)
    from addNewNode_inv[OF inv this, of sr] obtain r b' where b':
      "addNewNode b nn sr = (r, b')"
      "anon ` set (nodes b') = insert (anon nn) (anon ` set (nodes b))" by blast
    have "anon ` set (nodes b') \<subseteq> anon ` set (nn # nodes b)" using b'(2) by simp
    moreover have "list_all (labelMatches s c) (nn # nodes b)" using new lm by simp
    ultimately have "list_all (labelMatches s c) (nodes b')" by (rule labelMatches_transfer)
    then show ?thesis by (simp add: addNode_new_eq[OF Returned False b'(1)])
  qed
qed

lemma addNodes_loop_inv:
  "beam_inv b \<Longrightarrow> beam_inv (snd (addNodes_loop b xs fs ls))"
proof (induction b xs fs ls rule: addNodes_loop.induct)
  case (4 b x xs f fs l ls)
  obtain r b1 where a: "addNode b x (Some f) l False = (r, b1)" by (cases "addNode b x (Some f) l False")
  from addNode_inv[OF "4.prems", of x "Some f" l False] a have inv1: "beam_inv b1" by simp
  show ?case
  proof (cases r)
    case (Returned u)
    with a inv1 "4.IH"[of r b1 u] show ?thesis by simp
  next
    case (Raised e)
    with a inv1 show ?thesis by simp
  qed
qed simp_all

lemma addNodes_loop_coords:
  "beam_inv b \<Longrightarrow>
     fset (nodeCoords (snd (addNodes_loop b xs fs ls))) \<subseteq> set xs \<union> fset (nodeCoords b) \<and>
     fset (nodeCoords b) \<subseteq> fset (nodeCoords (snd (addNodes_loop b xs fs ls)))"
proof (induction b xs fs ls rule: addNodes_loop.induct)
  case (4 b x xs f fs l ls)
  obtain r b1 where a: "addNode b x (Some f) l False = (r, b1)" by (cases "addNode b x (Some f) l False")
  from addNode_inv[OF "4.prems", of x "Some f" l False] a have inv1: "beam_inv b1" by simp
  from addNode_coords[OF "4.prems", of x "Some f" l False] a
  have c1: "fset (nodeCoords b1) \<subseteq> insert x (fset (nodeCoords b))"
    "fset (nodeCoords b) \<subseteq> fset (nodeCoords b1)" by simp_all
  show ?case
  proof (cases r)
    case (Returned u)
    from "4.IH"[of r b1 u] a Returned inv1
    have "fset (nodeCoords (snd (addNodes_loop b1 xs fs ls))) \<subseteq> set xs \<union> fset (nodeCoords b1)"
      "fset (nodeCoords b1) \<subseteq> fset (nodeCoords (snd (addNodes_loop b1 xs fs ls)))"
      by simp_all
    with c1 a Returned show ?thesis by auto
  next
    case (Raised e)
    with a c1 show ?thesis by auto
  qed
qed auto

lemma addNodes_loop_labelMatches:
  "beam_inv b \<Longrightarrow> list_all (labelMatches s c) (nodes b) \<Longrightarrow> c \<notin> set xs \<Longrightarrow>
     Some s \<notin> set ls \<Longrightarrow>
     list_all (labelMatches s c) (nodes (snd (addNodes_loop b xs fs ls)))"
proof (induction b xs fs ls rule: addNodes_loop.induct)
  case (4 b x xs f fs l ls)
  obtain r b1 where a: "addNode b x (Some f) l False = (r, b1)" by (cases "addNode b x (Some f) l False")
  from addNode_inv[OF "4.prems"(1), of x "Some f" l False] a have inv1: "beam_inv b1" by simp
  from addNode_labelMatches[OF "4.prems"(1,2), of x l "Some f" False] a "4.prems"(3,4)
  have lm1: "list_all (labelMatches s c) (nodes b1)" by auto
  show ?case
  proof (cases r)
    case (Returned u)
    with a inv1 lm1 "4.prems"(3,4) "4.IH"[of r b1 u] show ?thesis by simp
  next
    case (Raised e)
    with a lm1 show ?thesis by simp
  qed
qed simp_all

lemma addNodes_inv:
  assumes inv: "beam_inv b"
  shows "beam_inv (snd (addNodes b xs fs ls))"
proof -
  define fs' where "fs' = (case fs of None \<Rightarrow> replicate (length xs) (replicate (ndf b) 0) | Some f \<Rightarrow> f)"
  define ls' where "ls' = (case ls of None \<Rightarrow> replicate (length xs) None | Some l \<Rightarrow> l)"
  obtain r b1 where a: "addNodes_loop b xs fs' ls' = (r, b1)" by (cases "addNodes_loop b xs fs' ls'")
  from addNodes_loop_inv[OF inv, of xs fs' ls'] a have inv1: "beam_inv b1" by simp
  from sortNodes_inv[OF inv1] obtain r' b' where "sortNodes b1 = (r', b')" "beam_inv b'"
    by blast
  with a inv1 show ?thesis
    by (cases r) (simp_all add: addNodes_def Let_def fs'_def[symmetric] ls'_def[symmetric])
qed

lemma addNodes_sorted:
  assumes inv: "beam_inv b" and rep: "list_all representable (xs @ map node_x (nodes b))"
    and ret: "fst (addNodes b xs fs ls) = Returned u"
  shows "sorted_wrt (<) (map node_x (nodes (snd (addNodes b xs fs ls))))"
proof -
  define fs' where "fs' = (case fs of None \<Rightarrow> replicate (length xs) (replicate (ndf b) 0) | Some f \<Rightarrow> f)"
  define ls' where "ls' = (case ls of None \<Rightarrow> replicate (length xs) None | Some l \<Rightarrow> l)"
  obtain r b1 where a: "addNodes_loop b xs fs' ls' = (r, b1)" by (cases "addNodes_loop b xs fs' ls'")
  from addNodes_loop_inv[OF inv, of xs fs' ls'] a have inv1: "beam_inv b1" by simp
  from addNodes_loop_coords[OF inv, of xs fs' ls'] a
  have "fset (nodeCoords b1) \<subseteq> set xs \<union> fset (nodeCoords b)" by simp
  with inv inv1 have "node_x ` set (nodes b1) \<subseteq> set xs \<union> node_x ` set (nodes b)"
    by (simp add: beam_inv_def)
  with rep have rep1: "list_all representable (map node_x (nodes b1))"
    by (auto simp: list_all_iff)
  from sortNodes_inv[OF inv1] rep1 obtain r' b' where "sortNodes b1 = (r', b')"
    "sorted_wrt (<) (map node_x (nodes b'))"
    by blast
  with a ret show ?thesis
    by (cases r) (simp_all add: addNodes_def Let_def fs'_def[symmetric] ls'_def[symmetric])
qed

lemma addNodes_coords:
  assumes inv: "beam_inv b"
  shows "fset (nodeCoords b) \<subseteq> fset (nodeCoords (snd (addNodes b xs fs ls)))"
proof -
  define fs' where "fs' = (case fs of None \<Rightarrow> replicate (length xs) (replicate (ndf b) 0) | Some f \<Rightarrow> f)"
  define ls' where "ls' = (case ls of None \<Rightarrow> replicate (length xs) None | Some l \<Rightarrow> l)"
  obtain r b1 where a: "addNodes_loop b xs fs' ls' = (r, b1)" by (cases "addNodes_loop b xs fs' ls'")
  from addNodes_loop_inv[OF inv, of xs fs' ls'] a have inv1: "beam_inv b1" by simp
  from addNodes_loop_coords[OF inv, of xs fs' ls'] a
  have c1: "fset (nodeCoords b) \<subseteq> fset (nodeCoords b1)" by simp
  from sortNodes_inv[OF inv1] obtain r' b' where "sortNodes b1 = (r', b')"
    "nodeCoords b' = nodeCoords b1"
    by blast
  with a c1 show ?thesis
    by (cases r) (simp_all add: addNodes_def Let_def fs'_def[symmetric] ls'_def[symmetric])
qed

lemma addNodes_labelMatches:
  assumes inv: "beam_inv b" and lm: "list_all (labelMatches s c) (nodes b)"
    and ne: "c \<notin> set xs" and nl: "Some s \<notin> set (case ls of None \<Rightarrow> [] | Some l \<Rightarrow> l)"
  shows "list_all (labelMatches s c) (nodes (snd (addNodes b xs fs ls)))"
proof -
  define fs' where "fs' = (case fs of None \<Rightarrow> replicate (length xs) (replicate (ndf b) 0) | Some f \<Rightarrow> f)"
  define ls' where "ls' = (case ls of None \<Rightarrow> replicate (length xs) None | Some l \<Rightarrow> l)"
  have nl': "Some s \<notin> set ls'" using nl by (auto simp: ls'_def split: option.splits)
  obtain r b1 where a: "addNodes_loop b xs fs' ls' = (r, b1)" by (cases "addNodes_loop b xs fs' ls'")
  from addNodes_loop_inv[OF inv, of xs fs' ls'] a have inv1: "beam_inv b1" by simp
  from addNodes_loop_labelMatches[OF inv lm ne nl', of fs'] a
  have lm1: "list_all (labelMatches s c) (nodes b1)" by simp
  from sortNodes_inv[OF inv1] obtain r' b' where b': "sortNodes b1 = (r', b')"
    "anon ` set (nodes b') = anon ` set (nodes b1)"
    by blast
  from b'(2) have "anon ` set (nodes b') \<subseteq> anon ` set (nodes b1)" by simp
  then have "list_all (labelMatches s c) (nodes b')" using lm1 by (rule labelMatches_transfer)
  with a b'(1) lm1 show ?thesis
    by (cases r) (simp_all add: addNodes_def Let_def fs'_def[symmetric] ls'_def[symmetric])
qed

lemma beam_inv_eleLoads [simp]: "beam_inv (b\<lparr>eleLoads := e\<rparr>) = beam_inv b"
  by (simp add: beam_inv_def)

lemma addLabel_inv:
  assumes inv: "beam_inv b"
  shows "beam_inv (snd (addLabel b x l s))"
proof (cases "Node_init x (replicate (ndf b) 0) l")
  case (Raised e)
  then show ?thesis using inv by (simp add: addLabel_def)
next
  case (Returned nn)
  note nn = Node_init_fields[OF Returned]
  show ?thesis
  proof (cases "x |\<in>| nodeCoords b")
    case True
    with inv obtain i where i: "findNode b x = Some i"
      using findNode_coords[of b x] by (auto simp: beam_inv_def)
    from findNode_SomeD[OF i] have il: "i < length (nodes b)" by auto
    have "beam_inv (b\<lparr>nodes := (nodes b)[i := (nodes b ! i)\<lparr>node_label := l\<rparr>]\<rparr>)"
      by (rule beam_inv_update[OF inv il]) simp_all
    then show ?thesis using Returned True i by (simp add: addLabel_def)
  next
    case False
    then have "node_x nn |\<notin>| nodeCoords b" by (simp add: nn)
    from addNewNode_inv[OF inv this, of s] obtain r b' where
      "addNewNode b nn s = (r, b')" "beam_inv b'" by blast
    then show ?thesis using Returned False by (cases r) (simp_all add: addLabel_def)
  qed
qed

lemma setFixity_inv:
  assumes inv: "beam_inv b"
  shows "beam_inv (snd (setFixity b x fx l))"
proof (cases "checkfixityInput b (convertFixityInput b fx)")
  case (Raised e)
  then show ?thesis using inv by (simp add: setFixity_def)
next
  case (Returned u)
  show ?thesis
  proof (cases "x |\<in>| nodeCoords b")
    case True
    with inv obtain i where i: "findNode b x = Some i"
      using findNode_coords[of b x] by (auto simp: beam_inv_def)
    from findNode_SomeD[OF i] have il: "i < length (nodes b)" by auto
    have "beam_inv (b\<lparr>nodes := (nodes b)[i := n']\<rparr>)"
      if "node_x n' = node_x (nodes b ! i)" "node_ID n' = node_ID (nodes b ! i)" for n'
      using that by (rule beam_inv_update[OF inv il])
    then show ?thesis using Returned True i by (simp add: setFixity_def Let_def)
  next
    case False
    obtain r b1 where a: "addNode b x (Some (convertFixityInput b fx)) l True = (r, b1)"
      by (cases "addNode b x (Some (convertFixityInput b fx)) l True")
    with addNode_inv[OF inv, of x "Some (convertFixityInput b fx)" l True]
    have "beam_inv b1" by simp
    then show ?thesis using Returned False a
      by (cases r) (simp_all add: setFixity_def Let_def)
  qed
qed

lemma addPointLoad_tail:
  assumes inv: "beam_inv b1" and i: "findNode b1 x = Some i"
    and x: "node_x n' = node_x (nodes b1 ! i)" and d: "node_ID n' = node_ID (nodes b1 ! i)"
  shows "beam_inv (b1\<lparr>nodes := (nodes b1)[i := n'],
                       pointLoads := pointLoads b1 @
                         [\<lparr>pl_P = P, pl_x = x, pl_nodeID = i + 1, pl_label = []\<rparr>]\<rparr>)"
proof -
  from findNode_SomeD[OF i] have il: "i < length (nodes b1)" and ix: "node_x (nodes b1 ! i) = x"
    by auto
  have upd: "beam_inv (b1\<lparr>nodes := (nodes b1)[i := n']\<rparr>)"
    by (rule beam_inv_update[OF inv il x d])
  have "\<exists>k<length (nodes b1). node_x ((nodes b1)[i := n'] ! k) = x \<and> i = k"
    using il ix x by simp
  with upd show ?thesis
    by (auto simp: beam_inv_def)
qed

lemma addPointLoad_inv:
  assumes inv: "beam_inv b"
  shows "beam_inv (snd (addPointLoad b x P l))"
proof -
  obtain r b1 where a: "(if x |\<in>| nodeCoords b then (Returned 0, b)
            else addNode b x None (Some []) True) = (r, b1)"
    by (cases "(if x |\<in>| nodeCoords b then (Returned 0, b)
            else addNode b x None (Some []) True)")
  have inv1: "beam_inv b1"
    using a inv addNode_inv[OF inv, of x None "Some []" True] by (auto split: if_splits)
  show ?thesis
  proof (cases r)
    case (Raised e)
    with a inv1 show ?thesis by (simp add: addPointLoad_def Let_def)
  next
    case (Returned v)
    show ?thesis
    proof (cases "findNode b1 x")
      case None
      with a Returned inv1 show ?thesis by (simp add: addPointLoad_def Let_def)
    next
      case (Some i)
      have "beam_inv (b1\<lparr>nodes := (nodes b1)[i := n'],
                       pointLoads := pointLoads b1 @
                         [\<lparr>pl_P = P, pl_x = x, pl_nodeID = i + 1, pl_label = []\<rparr>]\<rparr>)"
        if "node_x n' = node_x (nodes b1 ! i)" "node_ID n' = node_ID (nodes b1 ! i)" for n'
        using that by (rule addPointLoad_tail[OF inv1 Some])
      with a Returned Some show ?thesis by (simp add: addPointLoad_def Let_def)
    qed
  qed
qed

lemma addDistLoad_inv:
  assumes inv: "beam_inv b"
  shows "beam_inv (snd (addDistLoad b x1 x2 q l))"
proof -
  define df where "df = replicate (ndf b) (0::int)"
  obtain r b1 where a: "(if x1 |\<notin>| nodeCoords b then addNode b x1 (Some df) (Some []) True
            else (Returned 0, b)) = (r, b1)"
    by (cases "(if x1 |\<notin>| nodeCoords b then addNode b x1 (Some df) (Some []) True
            else (Returned 0, b))")
  have inv1: "beam_inv b1"
    using a inv addNode_inv[OF inv, of x1 "Some df" "Some []" True] by (auto split: if_splits)
  obtain r2 b2 where a2: "(if x2 |\<notin>| nodeCoords b1 then addNode b1 x2 (Some df) (Some []) True
            else (Returned 0, b1)) = (r2, b2)"
    by (cases "(if x2 |\<notin>| nodeCoords b1 then addNode b1 x2 (Some df) (Some []) True
            else (Returned 0, b1))")
  have inv2: "beam_inv b2"
    using a2 inv1 addNode_inv[OF inv1, of x2 "Some df" "Some []" True] by (auto split: if_splits)
  show ?thesis
    using a a2 inv1 inv2
    by (cases r; cases r2) (simp_all add: addDistLoad_def Let_def df_def[symmetric])
qed

lemma initBeam_inv: "beam_inv (initBeam d)"
  by (simp add: beam_inv_def initBeam_def)

lemma EulerBeam_inv: "beam_inv (snd (EulerBeam xs fs ls d))"
  using initBeam_inv[of d] addNodes_inv[OF initBeam_inv, of d]
  by (simp add: EulerBeam_def Let_def split: outcome.splits)

lemma reachable_inv: "reachable b \<Longrightarrow> beam_inv b"
proof (induction rule: reachable.induct)
  case (r_init xcoords fixities labels d b)
  with EulerBeam_inv[of xcoords fixities labels d] show ?case by simp
qed (simp_all add: addNode_inv addLabel_inv addNodes_inv setFixity_inv addPointLoad_inv
      addDistLoad_inv)

subsection \<open>The scenarios are reachable\<close>

lemma reachable_nodeLabels: "reachable b \<Longrightarrow> nodeLabels b = []"
  using reachable_inv[of b] by (simp add: beam_inv_def)

lemma reachable_EulerBeam:
  "fst (EulerBeam xs fs ls d) = Returned () \<Longrightarrow> reachable (snd (EulerBeam xs fs ls d))"
  by (rule r_init[of xs fs ls d]) (simp add: prod_eq_iff)

lemma reachable_scenA: "reachable scenA"
  unfolding scenA_def by (rule reachable_EulerBeam) code_simp

lemma reachable_scenE0: "reachable scenE0"
  unfolding scenE0_def by (rule reachable_EulerBeam) code_simp

lemma reachable_oneNodeBeam: "reachable oneNodeBeam"
  unfolding oneNodeBeam_def by (rule reachable_EulerBeam) code_simp

lemma reachable_unsortedBeam: "reachable unsortedBeam"
  unfolding unsortedBeam_def
  by (intro r_addNode reachable_EulerBeam) code_simp

lemma reachable_bigIntBeam: "reachable bigIntBeam"
  unfolding bigIntBeam_def by (rule reachable_EulerBeam) code_simp

subsection \<open>Length and extreme forces\<close>

lemma sorted_Max_Min:
  fixes xs :: "real list"
  assumes "sorted xs" "xs \<noteq> []"
  shows "Max (set xs) = last xs" "Min (set xs) = hd xs"
proof -
  from assms(2) have len: "0 < length xs" by simp
  have le_last: "y \<le> last xs" if "y \<in> set xs" for y
  proof -
    from that obtain i where "i < length xs" "xs ! i = y" by (auto simp: in_set_conv_nth)
    with assms show ?thesis
      using sorted_iff_nth_mono[of xs] by (auto simp: last_conv_nth)
  qed
  have hd_le: "hd xs \<le> y" if "y \<in> set xs" for y
  proof -
    from that obtain i where "i < length xs" "xs ! i = y" by (auto simp: in_set_conv_nth)
    with assms show ?thesis
      using sorted_iff_nth_mono[of xs] by (auto simp: hd_conv_nth)
  qed
  show "Max (set xs) = last xs"
    using assms(2) le_last by (intro Max_eqI) auto
  show "Min (set xs) = hd xs"
    using assms(2) hd_le by (intro Min_eqI) auto
qed

lemma py_index_nat: "k < length xs \<Longrightarrow> py_index xs (int k) = Returned (xs ! k)"
  by (simp add: py_index_def Let_def)

lemma Min_insert_min:
  fixes a b :: real
  assumes "finite A"
  shows "Min (insert (min a (min b c)) A) = Min (insert a (insert b (insert c A)))"
    and "Max (insert (max a (max b c)) A) = Max (insert a (insert b (insert c A)))"
  using assms by (cases "A = {}"; simp add: min.assoc max.assoc)+

lemma Fmax_loop_eq:
  assumes "\<forall>n\<in>set ns. \<exists>fint. node_Fint n = Some fint \<and> k + nd < length fint"
  shows "Fmax_loop nd (int k) ns lo hi =
           Returned (Min (insert lo (\<Union>n\<in>set ns. {the (node_Fint n) ! k, the (node_Fint n) ! (k + nd)})),
                     Max (insert hi (\<Union>n\<in>set ns. {the (node_Fint n) ! k, the (node_Fint n) ! (k + nd)})))"
  using assms
proof (induction ns arbitrary: lo hi)
  case Nil
  show ?case by simp
next
  case (Cons n ns)
  from Cons.prems obtain fint where f: "node_Fint n = Some fint" "k + nd < length fint"
    by auto
  define F1 where "F1 = fint ! k"
  define F2 where "F2 = fint ! (k + nd)"
  define S where "S = (\<Union>n\<in>set ns. {the (node_Fint n) ! k, the (node_Fint n) ! (k + nd)})"
  have fin: "finite S" by (simp add: S_def)
  have p1: "py_index fint (int k) = Returned F1"
    using f by (simp add: py_index_nat F1_def)
  have p2: "py_index fint (int k + int nd) = Returned F2"
    using f py_index_nat[of "k + nd" fint] by (simp add: F2_def)
  have lo: "(if F1 < lo \<or> F2 < lo then min F1 F2 else lo) = min lo (min F1 F2)"
    by (auto simp: min_def)
  have hi: "(if hi < F1 \<or> hi < F2 then max F1 F2 else hi) = max hi (max F1 F2)"
    by (auto simp: max_def)
  have rest: "\<forall>n\<in>set ns. \<exists>fint. node_Fint n = Some fint \<and> k + nd < length fint"
    using Cons.prems by simp
  have "Fmax_loop nd (int k) (n # ns) lo hi =
          Fmax_loop nd (int k) ns (min lo (min F1 F2)) (max hi (max F1 F2))"
    using f p1 p2 by (simp add: lo hi)
  also have "\<dots> = Returned (Min (insert (min lo (min F1 F2)) S), Max (insert (max hi (max F1 F2)) S))"
    unfolding S_def by (rule Cons.IH[OF rest])
  also have "\<dots> = Returned (Min (insert lo (insert F1 (insert F2 S))),
                           Max (insert hi (insert F1 (insert F2 S))))"
    by (simp only: Min_insert_min[OF fin])
  finally show ?case
    using f by (simp add: S_def F1_def F2_def)
qed

subsection \<open>What the fixity check refuses\<close>

text \<open>\<^verbatim>\<open>setFixity\<close> raises ValueError and leaves the beam as it was when the fixity, after
  the conversion of an integer, has an entry other than 0 and 1, or has length 2, or is
  longer than the number of degrees of freedom.\<close>

lemma setFixity_rejects:
  assumes "fixity = convertFixityInput b fixityIn"
    and "\<not> list_all (\<lambda>v. v = 0 \<or> v = 1) fixity \<or> length fixity = 2 \<or> ndf b < length fixity"
  shows "setFixity b x fixityIn label = (Raised ValueError, b)"
  using assms by (auto simp: setFixity_def checkfixityInput_def Let_def)

subsection \<open>Loads and labels through insertions\<close>

lemma sorted_wrt_adjacent:
  "sorted_wrt (<) (map node_x (nodes b)) \<Longrightarrow> sortedByPosition b"
  unfolding sortedByPosition_def
  using sorted_wrt_nth_less[of "(<)" "map node_x (nodes b)"] by fastforce

lemma beam_inv_numbered: "beam_inv b \<Longrightarrow> numberedByRank b"
  by (simp add: beam_inv_def numberedByRank_def)

lemma addNode_loads:
  assumes inv: "beam_inv b"
  shows "map pl_x (pointLoads (snd (addNode b x f l s))) = map pl_x (pointLoads b) \<and>
         map pl_P (pointLoads (snd (addNode b x f l s))) = map pl_P (pointLoads b)"
proof (cases "Node_init x (case f of None \<Rightarrow> replicate (ndf b) 0 | Some f' \<Rightarrow> f') l")
  case (Raised e)
  then show ?thesis by (simp add: addNode_fail_eq)
next
  case (Returned nn)
  note nn = Node_init_fields[OF Returned]
  show ?thesis
  proof (cases "x |\<in>| nodeCoords b")
    case True
    with inv obtain i where i: "findNode b x = Some i"
      using findNode_coords[of b x] by (auto simp: beam_inv_def)
    show ?thesis by (simp add: addNode_merge_eq[OF Returned True i])
  next
    case False
    then have "node_x nn |\<notin>| nodeCoords b" by (simp add: nn)
    from addNewNode_inv[OF inv this, of s] obtain r b' where
      "addNewNode b nn s = (r, b')"
      "map pl_x (pointLoads b') = map pl_x (pointLoads b)"
      "map pl_P (pointLoads b') = map pl_P (pointLoads b)" by blast
    then show ?thesis by (simp add: addNode_new_eq[OF Returned False])
  qed
qed

lemma addNodes_loop_loads:
  "beam_inv b \<Longrightarrow>
     map pl_x (pointLoads (snd (addNodes_loop b xs fs ls))) = map pl_x (pointLoads b) \<and>
     map pl_P (pointLoads (snd (addNodes_loop b xs fs ls))) = map pl_P (pointLoads b)"
proof (induction b xs fs ls rule: addNodes_loop.induct)
  case (4 b x xs f fs l ls)
  obtain r b1 where a: "addNode b x (Some f) l False = (r, b1)" by (cases "addNode b x (Some f) l False")
  from addNode_inv[OF "4.prems", of x "Some f" l False] a have inv1: "beam_inv b1" by simp
  from addNode_loads[OF "4.prems", of x "Some f" l False] a
  have l1: "map pl_x (pointLoads b1) = map pl_x (pointLoads b)"
    "map pl_P (pointLoads b1) = map pl_P (pointLoads b)" by simp_all
  show ?case
  proof (cases r)
    case (Returned u)
    with a inv1 l1 "4.IH"[of r b1 u] show ?thesis by simp
  next
    case (Raised e)
    with a l1 show ?thesis by simp
  qed
qed simp_all

lemma addNodes_loads:
  assumes inv: "beam_inv b"
  shows "map pl_x (pointLoads (snd (addNodes b xs fs ls))) = map pl_x (pointLoads b) \<and>
         map pl_P (pointLoads (snd (addNodes b xs fs ls))) = map pl_P (pointLoads b)"
proof -
  define fs' where "fs' = (case fs of None \<Rightarrow> replicate (length xs) (replicate (ndf b) 0) | Some f \<Rightarrow> f)"
  define ls' where "ls' = (case ls of None \<Rightarrow> replicate (length xs) None | Some l \<Rightarrow> l)"
  obtain r b1 where a: "addNodes_loop b xs fs' ls' = (r, b1)" by (cases "addNodes_loop b xs fs' ls'")
  from addNodes_loop_inv[OF inv, of xs fs' ls'] a have inv1: "beam_inv b1" by simp
  from addNodes_loop_loads[OF inv, of xs fs' ls'] a
  have l1: "map pl_x (pointLoads b1) = map pl_x (pointLoads b)"
    "map pl_P (pointLoads b1) = map pl_P (pointLoads b)" by simp_all
  from sortNodes_inv[OF inv1] obtain r' b' where "sortNodes b1 = (r', b')"
    "map pl_x (pointLoads b') = map pl_x (pointLoads b1)"
    "map pl_P (pointLoads b') = map pl_P (pointLoads b1)"
    by blast
  with a l1 show ?thesis
    by (cases r) (simp_all add: addNodes_def Let_def fs'_def[symmetric] ls'_def[symmetric])
qed

lemma insertions_inv:
  assumes "insertions A b b'" and "beam_inv b"
  shows "beam_inv b' \<and> map pl_x (pointLoads b') = map pl_x (pointLoads b) \<and>
         map pl_P (pointLoads b') = map pl_P (pointLoads b)"
  using assms
proof (induction rule: insertions.induct)
  case ins_none
  then show ?case by simp
next
  case (ins_addNode b1 x fixity label srt)
  then have inv1: "beam_inv b1" by simp
  from addNode_inv[OF inv1] addNode_loads[OF inv1] ins_addNode show ?case by simp
next
  case (ins_addNodes b1 xCoords fixities labels)
  then have inv1: "beam_inv b1" by simp
  from addNodes_inv[OF inv1] addNodes_loads[OF inv1] ins_addNodes show ?case by simp
qed

lemma otherInsertions_inv:
  assumes "otherInsertions c s b b'" and "beam_inv b" and "c |\<in>| nodeCoords b"
    and "list_all (labelMatches s c) (nodes b)"
  shows "beam_inv b' \<and> c |\<in>| nodeCoords b' \<and> list_all (labelMatches s c) (nodes b')"
  using assms
proof (induction rule: otherInsertions.induct)
  case oi_none
  then show ?case by simp
next
  case (oi_addNode b1 x label fixity srt)
  then have inv1: "beam_inv b1" and c1: "c |\<in>| nodeCoords b1"
    and lm1: "list_all (labelMatches s c) (nodes b1)" by simp_all
  from addNode_inv[OF inv1] addNode_coords[OF inv1, of x fixity label srt] c1
    addNode_labelMatches[OF inv1 lm1 oi_addNode.hyps(2,3)]
  show ?case by auto
next
  case (oi_addNodes b1 xCoords labels fixities)
  then have inv1: "beam_inv b1" and c1: "c |\<in>| nodeCoords b1"
    and lm1: "list_all (labelMatches s c) (nodes b1)" by simp_all
  from addNodes_inv[OF inv1] addNodes_coords[OF inv1, of xCoords fixities labels] c1
    addNodes_labelMatches[OF inv1 lm1 oi_addNodes.hyps(2,3)]
  show ?case by auto
qed

lemma beam_inv_load:
  assumes inv: "beam_inv b" and p: "p \<in> set (pointLoads b)"
  shows "\<exists>i. findNode b (pl_x p) = Some i \<and> node_ID (nodes b ! i) = Some (pl_nodeID p)"
proof -
  from inv p obtain i where i: "i < length (nodes b)" "node_x (nodes b ! i) = pl_x p"
    "pl_nodeID p = i + 1" by (auto simp: beam_inv_def)
  from inv have "distinct (map node_x (nodes b))" by (simp add: beam_inv_def)
  from findNode_distinct[OF this i(1)] i(2) have "findNode b (pl_x p) = Some i" by simp
  moreover from inv i have "node_ID (nodes b ! i) = Some (pl_nodeID p)"
    by (simp add: beam_inv_def)
  ultimately show ?thesis by blast
qed

lemma addPointLoad_loads:
  assumes inv: "beam_inv b" and ret: "fst (addPointLoad b c P l) = Returned ()"
  shows "map pl_x (pointLoads (snd (addPointLoad b c P l))) = map pl_x (pointLoads b) @ [c] \<and>
         map pl_P (pointLoads (snd (addPointLoad b c P l))) = map pl_P (pointLoads b) @ [P]"
proof -
  obtain r b1 where a: "(if c |\<in>| nodeCoords b then (Returned 0, b)
            else addNode b c None (Some []) True) = (r, b1)"
    by (cases "(if c |\<in>| nodeCoords b then (Returned 0, b)
            else addNode b c None (Some []) True)")
  have l1: "map pl_x (pointLoads b1) = map pl_x (pointLoads b) \<and>
            map pl_P (pointLoads b1) = map pl_P (pointLoads b)"
    using a addNode_loads[OF inv, of c None "Some []" True] by (auto split: if_splits)
  show ?thesis
  proof (cases r)
    case (Raised e)
    with a ret show ?thesis by (simp add: addPointLoad_def Let_def)
  next
    case (Returned v)
    show ?thesis
    proof (cases "findNode b1 c")
      case None
      with a Returned ret show ?thesis by (simp add: addPointLoad_def Let_def)
    next
      case (Some i)
      with a Returned l1 show ?thesis by (simp add: addPointLoad_def Let_def)
    qed
  qed
qed

section \<open>The claims\<close>

section \<open>The claims\<close>

subsection \<open>C1: the sort invariant\<close>

text \<open>
  Claim C1, as amended. From every reachable beam whose coordinates, the new ones
  included, are representable as float64, \<^verbatim>\<open>addNode\<close> with \<^verbatim>\<open>sort=True\<close> at a coordinate that
  is not yet present, and \<^verbatim>\<open>addNodes\<close>, when they return, leave the nodes in strictly
  ascending position with \<^verbatim>\<open>node[i].ID == i + 1\<close>; the identifiers are \<open>i + 1\<close> in every
  reachable beam, sorted or not.
\<close>

theorem sort_invariant:
  assumes "reachable b"
  shows "(x |\<notin>| nodeCoords b \<and> list_all representable (x # map node_x (nodes b)) \<and>
          fst (addNode b x f l True) = Returned r \<longrightarrow>
            sortedByPosition (snd (addNode b x f l True)) \<and>
            numberedByRank (snd (addNode b x f l True))) \<and>
         (list_all representable (xs @ map node_x (nodes b)) \<and>
          fst (addNodes b xs fs ls) = Returned u \<longrightarrow>
            sortedByPosition (snd (addNodes b xs fs ls)) \<and>
            numberedByRank (snd (addNodes b xs fs ls))) \<and>
         numberedByRank b"
proof (intro conjI impI)
  from assms have inv: "beam_inv b" by (rule reachable_inv)
  show "numberedByRank b" by (rule beam_inv_numbered[OF inv])
  {
    assume h: "x |\<notin>| nodeCoords b \<and> list_all representable (x # map node_x (nodes b)) \<and>
          fst (addNode b x f l True) = Returned r"
    then have "sorted_wrt (<) (map node_x (nodes (snd (addNode b x f l True))))"
      using addNode_new_sorted[OF inv, of x f l r] by blast
    then show "sortedByPosition (snd (addNode b x f l True))" by (rule sorted_wrt_adjacent)
    show "numberedByRank (snd (addNode b x f l True))"
      by (rule beam_inv_numbered[OF addNode_inv[OF inv]])
  }
  {
    assume h: "list_all representable (xs @ map node_x (nodes b)) \<and>
          fst (addNodes b xs fs ls) = Returned u"
    then have "sorted_wrt (<) (map node_x (nodes (snd (addNodes b xs fs ls))))"
      using addNodes_sorted[OF inv, of xs fs ls u] by blast
    then show "sortedByPosition (snd (addNodes b xs fs ls))" by (rule sorted_wrt_adjacent)
    show "numberedByRank (snd (addNodes b xs fs ls))"
      by (rule beam_inv_numbered[OF addNodes_inv[OF inv]])
  }
qed

text \<open>
  The theorem at scenario A: a new node at 3, and the batch 7, 6.
\<close>

theorem sort_invariant_witness:
  "reachable scenA \<and> 3 |\<notin>| nodeCoords scenA \<and>
   list_all representable (3 # map node_x (nodes scenA)) \<and>
   fst (addNode scenA 3 None (Some ''D'') True) = Returned 1 \<and>
   sortedByPosition (snd (addNode scenA 3 None (Some ''D'') True)) \<and>
   numberedByRank (snd (addNode scenA 3 None (Some ''D'') True)) \<and>
   map node_x (nodes (snd (addNode scenA 3 None (Some ''D'') True))) = [0, 3, 5] \<and>
   list_all representable ([7, 6] @ map node_x (nodes scenA)) \<and>
   fst (addNodes scenA [7, 6] None None) = Returned () \<and>
   sortedByPosition (snd (addNodes scenA [7, 6] None None)) \<and>
   numberedByRank (snd (addNodes scenA [7, 6] None None)) \<and>
   map node_x (nodes (snd (addNodes scenA [7, 6] None None))) = [0, 5, 6, 7]"
proof -
  have h1: "3 |\<notin>| nodeCoords scenA" by code_simp
  have p1: "list_all representable (3 # map node_x (nodes scenA))" by code_simp
  have h2: "fst (addNode scenA 3 None (Some ''D'') True) = Returned 1" by code_simp
  have p2: "list_all representable ([7, 6] @ map node_x (nodes scenA))" by code_simp
  have h3: "fst (addNodes scenA [7, 6] None None) = Returned ()" by code_simp
  have v1: "map node_x (nodes (snd (addNode scenA 3 None (Some ''D'') True))) = [0, 3, 5]"
    by code_simp
  have v2: "map node_x (nodes (snd (addNodes scenA [7, 6] None None))) = [0, 5, 6, 7]"
    by code_simp
  from sort_invariant[OF reachable_scenA, of 3 None "Some ''D''" 1 "[7, 6]" None None "()"]
    reachable_scenA h1 p1 h2 p2 h3 v1 v2
  show ?thesis by simp
qed

text \<open>
  Claim C1 as stated fails in two ways. It counts every \<^verbatim>\<open>addNode\<close> with \<^verbatim>\<open>sort=True\<close> as a
  resort, but at a coordinate that is already present the call returns 0 before
  \<^verbatim>\<open>_addNewNode\<close> and does not sort: after 5 and 0 were added with \<^verbatim>\<open>sort=False\<close>,
  \<^verbatim>\<open>addNode(0)\<close> leaves the order 5, 0. And the resort orders the float64 copies: the ints
  \<open>2^53 + 1\<close> and \<open>2^53\<close> have the same copy, so \<^verbatim>\<open>EulerBeam([2**53 + 1, 2**53])\<close> returns
  with the larger coordinate first.
\<close>

theorem sort_invariant_counterexample:
  "reachable unsortedBeam \<and> 0 |\<in>| nodeCoords unsortedBeam \<and>
   fst (addNode unsortedBeam 0 None (Some []) True) = Returned 0 \<and>
   map node_x (nodes (snd (addNode unsortedBeam 0 None (Some []) True))) = [5, 0] \<and>
   \<not> sortedByPosition (snd (addNode unsortedBeam 0 None (Some []) True)) \<and>
   fst (EulerBeam (Some [9007199254740993, 9007199254740992]) None None D2) = Returned () \<and>
   reachable bigIntBeam \<and>
   map node_x (nodes bigIntBeam) = [9007199254740993, 9007199254740992] \<and>
   \<not> sortedByPosition bigIntBeam"
proof -
  have h1: "0 |\<in>| nodeCoords unsortedBeam" by code_simp
  have h2: "fst (addNode unsortedBeam 0 None (Some []) True) = Returned 0" by code_simp
  have v: "map node_x (nodes (snd (addNode unsortedBeam 0 None (Some []) True))) = [5, 0]"
    by code_simp
  have n1: "\<not> sortedByPosition (snd (addNode unsortedBeam 0 None (Some []) True))"
  proof
    assume "sortedByPosition (snd (addNode unsortedBeam 0 None (Some []) True))"
    then have "map node_x (nodes (snd (addNode unsortedBeam 0 None (Some []) True))) ! 0
                 < map node_x (nodes (snd (addNode unsortedBeam 0 None (Some []) True))) ! 1"
      using arg_cong[OF v, of length]
      by (simp add: sortedByPosition_def)
    then show False unfolding v by simp
  qed
  have h3: "fst (EulerBeam (Some [9007199254740993, 9007199254740992]) None None D2) = Returned ()"
    by code_simp
  have w: "map node_x (nodes bigIntBeam) = [9007199254740993, 9007199254740992]"
    by code_simp
  have n2: "\<not> sortedByPosition bigIntBeam"
  proof
    assume "sortedByPosition bigIntBeam"
    then have "map node_x (nodes bigIntBeam) ! 0 < map node_x (nodes bigIntBeam) ! 1"
      using arg_cong[OF w, of length]
      by (simp add: sortedByPosition_def)
    then show False unfolding w by simp
  qed
  from reachable_unsortedBeam reachable_bigIntBeam h1 h2 v n1 h3 w n2 show ?thesis by simp
qed

subsection \<open>C2: point loads follow their node\<close>

text \<open>
  Claim C2. In every reachable beam each point load names the identifier of the node found
  at the load's own coordinate. A load created by \<^verbatim>\<open>addPointLoad\<close> at \<open>c\<close> is the last of the
  list, keeps its place, its coordinate and its vector through any run of insertions, and
  its \<^verbatim>\<open>nodeID\<close> is the identifier of the node at \<open>c\<close> afterwards. Scenario E: on the mesh
  0, 2.5, 5 the load at 2.5 has \<^verbatim>\<open>nodeID\<close> 2, and 3 once a node at 1 is inserted.
\<close>

theorem load_remap:
  "(reachable b \<and> p \<in> set (pointLoads b) \<longrightarrow>
      (\<exists>i. findNode b (pl_x p) = Some i \<and> node_ID (nodes b ! i) = Some (pl_nodeID p))) \<and>
   (reachable b \<and> fst (addPointLoad b c P l) = Returned () \<and>
    insertions {} (snd (addPointLoad b c P l)) b' \<longrightarrow>
      length (pointLoads b') = length (pointLoads b) + 1 \<and>
      pl_x (pointLoads b' ! length (pointLoads b)) = c \<and>
      pl_P (pointLoads b' ! length (pointLoads b)) = P \<and>
      (\<exists>i. findNode b' c = Some i \<and>
           node_ID (nodes b' ! i) = Some (pl_nodeID (pointLoads b' ! length (pointLoads b))))) \<and>
   (map node_x (nodes scenE1) = [0, 5 / 2, 5] \<and> map pl_x (pointLoads scenE1) = [5 / 2] \<and>
    map pl_nodeID (pointLoads scenE1) = [2] \<and>
    map node_x (nodes scenE2) = [0, 1, 5 / 2, 5] \<and>
    map node_ID (nodes scenE2) = [Some 1, Some 2, Some 3, Some 4] \<and>
    map pl_nodeID (pointLoads scenE2) = [3])"
proof (intro conjI impI)
  show "\<exists>i. findNode b (pl_x p) = Some i \<and> node_ID (nodes b ! i) = Some (pl_nodeID p)"
    if "reachable b \<and> p \<in> set (pointLoads b)"
    using that beam_inv_load[OF reachable_inv] by blast
next
  assume h: "reachable b \<and> fst (addPointLoad b c P l) = Returned () \<and>
    insertions {} (snd (addPointLoad b c P l)) b'"
  define k where "k = length (pointLoads b)"
  from h have inv: "beam_inv b" by (simp add: reachable_inv)
  have inv1: "beam_inv (snd (addPointLoad b c P l))" by (rule addPointLoad_inv[OF inv])
  from h insertions_inv[OF _ inv1] have inv': "beam_inv b'"
    and lx: "map pl_x (pointLoads b') = map pl_x (pointLoads (snd (addPointLoad b c P l)))"
    and lP: "map pl_P (pointLoads b') = map pl_P (pointLoads (snd (addPointLoad b c P l)))"
    by blast+
  from h addPointLoad_loads[OF inv, of c P l]
  have mx: "map pl_x (pointLoads b') = map pl_x (pointLoads b) @ [c]"
    and mP: "map pl_P (pointLoads b') = map pl_P (pointLoads b) @ [P]"
    by (simp_all add: lx lP)
  from arg_cong[OF mx, of length] show len: "length (pointLoads b') = length (pointLoads b) + 1"
    by simp
  from arg_cong[OF mx, of "\<lambda>xs. xs ! k"] len
  show px: "pl_x (pointLoads b' ! length (pointLoads b)) = c"
    by (simp add: k_def nth_append)
  from arg_cong[OF mP, of "\<lambda>xs. xs ! k"] len
  show "pl_P (pointLoads b' ! length (pointLoads b)) = P"
    by (simp add: k_def nth_append)
  from len have "pointLoads b' ! length (pointLoads b) \<in> set (pointLoads b')" by simp
  from beam_inv_load[OF inv' this] px
  show "\<exists>i. findNode b' c = Some i \<and>
           node_ID (nodes b' ! i) = Some (pl_nodeID (pointLoads b' ! length (pointLoads b)))"
    by simp
next
  show "map node_x (nodes scenE1) = [0, 5 / 2, 5]" by code_simp
  show "map pl_x (pointLoads scenE1) = [5 / 2]" by code_simp
  show "map pl_nodeID (pointLoads scenE1) = [2]" by code_simp
  show "map node_x (nodes scenE2) = [0, 1, 5 / 2, 5]" by code_simp
  show "map node_ID (nodes scenE2) = [Some 1, Some 2, Some 3, Some 4]" by code_simp
  show "map pl_nodeID (pointLoads scenE2) = [3]" by code_simp
qed

text \<open>
  The theorem at scenario E.
\<close>

theorem load_remap_witness:
  "reachable scenE0 \<and> fst (addPointLoad scenE0 (5 / 2) [0, 10, 0] (Some [])) = Returned () \<and>
   insertions {} (snd (addPointLoad scenE0 (5 / 2) [0, 10, 0] (Some []))) scenE2 \<and>
   length (pointLoads scenE0) = 0 \<and>
   pointLoads scenE2 ! 0 \<in> set (pointLoads scenE2) \<and> reachable scenE2 \<and>
   pl_x (pointLoads scenE2 ! 0) = 5 / 2 \<and> pl_nodeID (pointLoads scenE2 ! 0) = 3 \<and>
   (\<exists>i. findNode scenE2 (5 / 2) = Some i \<and> node_ID (nodes scenE2 ! i) = Some 3)"
proof -
  have r0: "reachable scenE0" by (rule reachable_scenE0)
  have r2: "reachable scenE2"
    unfolding scenE2_def scenE1_def by (intro r_addNode r_addPointLoad r0)
  have h1: "fst (addPointLoad scenE0 (5 / 2) [0, 10, 0] (Some [])) = Returned ()" by code_simp
  have h2: "insertions {} (snd (addPointLoad scenE0 (5 / 2) [0, 10, 0] (Some []))) scenE2"
    unfolding scenE2_def scenE1_def by (intro ins_addNode ins_none) simp
  have l0: "length (pointLoads scenE0) = 0" by code_simp
  have l2: "length (pointLoads scenE2) = 1" by code_simp
  have m: "pointLoads scenE2 ! 0 \<in> set (pointLoads scenE2)" using l2 by simp
  have v: "pl_nodeID (pointLoads scenE2 ! 0) = 3" by code_simp
  from load_remap[of scenE0 "pointLoads scenE2 ! 0" "5 / 2" "[0, 10, 0]" "Some []" scenE2]
    r0 r2 h1 h2 l0 m v
  show ?thesis by simp
qed

subsection \<open>C3: merging keeps the count and the identifier\<close>

text \<open>
  Claim C3 at a failing input. In scenario E the node at 2.5 carries the load identifier 1.
  \<^verbatim>\<open>addNode(2.5)\<close> returns 0, keeps \<^verbatim>\<open>Nnodes\<close> and the identifier of the node, and replaces the
  node by a fresh one whose \<^verbatim>\<open>pointLoadIDs\<close> is empty, while the load still names the node.
\<close>

theorem addNode_merge_drops_pointLoadIDs:
  "findNode scenE1 (5 / 2) = Some 1 \<and>
   node_pointLoadIDs (nodes scenE1 ! 1) = [1] \<and> map pl_nodeID (pointLoads scenE1) = [2] \<and>
   fst (addNode scenE1 (5 / 2) None (Some []) True) = Returned 0 \<and>
   Nnodes (snd (addNode scenE1 (5 / 2) None (Some []) True)) = Nnodes scenE1 \<and>
   findNode (snd (addNode scenE1 (5 / 2) None (Some []) True)) (5 / 2) = Some 1 \<and>
   node_ID (nodes (snd (addNode scenE1 (5 / 2) None (Some []) True)) ! 1)
     = node_ID (nodes scenE1 ! 1) \<and>
   node_pointLoadIDs (nodes (snd (addNode scenE1 (5 / 2) None (Some []) True)) ! 1) = [] \<and>
   map pl_nodeID (pointLoads (snd (addNode scenE1 (5 / 2) None (Some []) True))) = [2]"
  by code_simp

subsection \<open>C4: labels follow their node\<close>

text \<open>
  Claim C4, as amended. \<^verbatim>\<open>nodeLabels\<close> is empty in every reachable beam, and a label is
  looked up by scanning the nodes. If the lookup of the label \<open>s\<close> yields the node at \<open>c\<close>
  and no other node, it still does so after any run of insertions, with their resorts,
  none of which is at \<open>c\<close> or hands out the label \<open>s\<close>. Scenario C: from the nodes 0, 5
  labelled A, B, new nodes at 3 (D) and 6 (C) give the labels A, D, B, C in sorted order.
\<close>

theorem label_remap:
  "(reachable b \<and> labelFinds b s c \<and> otherInsertions c s b b' \<longrightarrow> labelFinds b' s c) \<and>
   (reachable b \<longrightarrow> nodeLabels b = []) \<and>
   (map node_x (nodes scenA) = [0, 5] \<and>
    map node_label (nodes scenA) = [Some ''A'', Some ''B''] \<and>
    map node_x (nodes scenC) = [0, 3, 5, 6] \<and>
    map node_label (nodes scenC) = [Some ''A'', Some ''D'', Some ''B'', Some ''C''])"
proof (intro conjI impI)
  assume h: "reachable b \<and> labelFinds b s c \<and> otherInsertions c s b b'"
  then have inv: "beam_inv b" by (simp add: reachable_inv)
  from h have "c |\<in>| nodeCoords b" "list_all (labelMatches s c) (nodes b)"
    by (simp_all add: labelFinds_iff[OF inv])
  with h otherInsertions_inv[OF _ inv]
  have r: "beam_inv b' \<and> c |\<in>| nodeCoords b' \<and> list_all (labelMatches s c) (nodes b')"
    by blast
  then show "labelFinds b' s c" by (simp add: labelFinds_iff)
next
  show "nodeLabels b = []" if "reachable b" using that by (rule reachable_nodeLabels)
next
  show "map node_x (nodes scenA) = [0, 5]" by code_simp
  show "map node_label (nodes scenA) = [Some ''A'', Some ''B'']" by code_simp
  show "map node_x (nodes scenC) = [0, 3, 5, 6]" by code_simp
  show "map node_label (nodes scenC) = [Some ''A'', Some ''D'', Some ''B'', Some ''C'']"
    by code_simp
qed

text \<open>
  The theorem at scenario C, for the label B of the node at 5.
\<close>

theorem label_remap_witness:
  "reachable scenA \<and> labelFinds scenA ''B'' 5 \<and> otherInsertions 5 ''B'' scenA scenC \<and>
   labelFinds scenC ''B'' 5 \<and>
   findNode scenC 5 = Some 2 \<and> node_label (nodes scenC ! 2) = Some ''B'' \<and>
   nodeLabels scenC = []"
proof -
  have h1: "labelFinds scenA ''B'' 5" by code_simp
  have h2: "otherInsertions 5 ''B'' scenA scenC"
    unfolding scenC_def by (intro oi_addNode oi_none) simp_all
  have v1: "findNode scenC 5 = Some 2" by code_simp
  have v2: "node_label (nodes scenC ! 2) = Some ''B''" by code_simp
  have v3: "nodeLabels scenC = []" by code_simp
  from label_remap[of scenA "''B''" 5 scenC] reachable_scenA h1 h2 v1 v2 v3
  show ?thesis by simp
qed

text \<open>
  Claim C4 as stated allows any further insertion and looks the label up. Three things
  stand against it. No method writes \<^verbatim>\<open>nodeLabels\<close>, so the dict has no entry for B. An
  insertion at the coordinate of the label, \<^verbatim>\<open>addNode(5)\<close> with the default label, replaces
  the node and leaves no node labelled B. And the same label can be handed to a second
  node, \<^verbatim>\<open>addNode(-1, label='B')\<close>, after which the first node labelled B is the one at -1.
\<close>

theorem label_remap_counterexample:
  "labelFinds scenA ''B'' 5 \<and> nodeLabels scenA = [] \<and>
   fst (addNode scenA 5 None (Some []) True) = Returned 0 \<and>
   map node_x (nodes (snd (addNode scenA 5 None (Some []) True))) = [0, 5] \<and>
   map node_label (nodes (snd (addNode scenA 5 None (Some []) True))) = [Some ''A'', Some []] \<and>
   \<not> labelFinds (snd (addNode scenA 5 None (Some []) True)) ''B'' 5 \<and>
   fst (addNode scenA (- 1) None (Some ''B'') True) = Returned 1 \<and>
   map node_x (nodes (snd (addNode scenA (- 1) None (Some ''B'') True))) = [- 1, 0, 5] \<and>
   map node_label (nodes (snd (addNode scenA (- 1) None (Some ''B'') True)))
     = [Some ''B'', Some ''A'', Some ''B''] \<and>
   \<not> labelFinds (snd (addNode scenA (- 1) None (Some ''B'') True)) ''B'' 5"
  by code_simp

subsection \<open>C5: the label on a merge\<close>

text \<open>
  Claim C5 at a failing input. In scenario A the node at 0 is labelled A. \<^verbatim>\<open>addNode(0)\<close>
  with the default label \<^verbatim>\<open>''\<close> leaves it labelled \<^verbatim>\<open>''\<close>, and with \<^verbatim>\<open>label=None\<close> leaves it
  labelled \<^verbatim>\<open>None\<close>; \<^verbatim>\<open>setFixity\<close> with an empty label keeps A.
\<close>

theorem addNode_merge_overwrites_label:
  "findNode scenA 0 = Some 0 \<and> node_label (nodes scenA ! 0) = Some ''A'' \<and>
   fst (addNode scenA 0 None (Some []) True) = Returned 0 \<and>
   node_label (nodes (snd (addNode scenA 0 None (Some []) True)) ! 0) = Some [] \<and>
   fst (addNode scenA 0 None None True) = Returned 0 \<and>
   node_label (nodes (snd (addNode scenA 0 None None True)) ! 0) = None \<and>
   node_label (nodes (snd (setFixity scenA 0 (FixVec [1, 1, 0]) (Some []))) ! 0) = Some ''A''"
  by code_simp

subsection \<open>C6: hasReaction\<close>

text \<open>
  Claim C6 at a failing input. The node at 0 of the free mesh has \<^verbatim>\<open>hasReaction\<close> false.
  \<^verbatim>\<open>setFixity(0, [0,0,0])\<close> returns, the fixity is all free, and \<^verbatim>\<open>hasReaction\<close> is true;
  \<^verbatim>\<open>addNode\<close> with the same fixity leaves it false.
\<close>

theorem setFixity_free_sets_hasReaction:
  "findNode scenE0 0 = Some 0 \<and> node_hasReaction (nodes scenE0 ! 0) = False \<and>
   fst (setFixity scenE0 0 (FixVec [0, 0, 0]) None) = Returned () \<and>
   node_fixity (nodes (snd (setFixity scenE0 0 (FixVec [0, 0, 0]) None)) ! 0) = [0, 0, 0] \<and>
   node_hasReaction (nodes (snd (setFixity scenE0 0 (FixVec [0, 0, 0]) None)) ! 0) = True \<and>
   node_hasReaction (nodes (snd (addNode scenE0 0 (Some [0, 0, 0]) None True)) ! 0) = False"
  by code_simp

subsection \<open>C7: rejected fixity vectors\<close>

text \<open>
  Claim C7 at a failing input. The beam of scenario A is planar, with three degrees of
  freedom. \<^verbatim>\<open>setFixity(0, [1])\<close> passes a fixity of length 1: \<^verbatim>\<open>_checkfixityInput\<close> refuses
  only length 2 and lengths above three, so the call returns and the node at 0 stores the
  fixity \<^verbatim>\<open>[1]\<close>; the length 2 is refused and leaves the beam as it was.
\<close>

theorem setFixity_accepts_short_vector:
  "ndf scenA = 3 \<and> length [1 :: int] \<noteq> ndf scenA \<and>
   checkfixityInput scenA [1] = Returned () \<and>
   fst (setFixity scenA 0 (FixVec [1]) None) = Returned () \<and>
   map node_fixity (nodes scenA) = [[1, 1, 1], [1, 1, 1]] \<and>
   map node_fixity (nodes (snd (setFixity scenA 0 (FixVec [1]) None))) = [[1], [1, 1, 1]] \<and>
   setFixity scenA 0 (FixVec [1, 1]) None = (Raised ValueError, scenA)"
proof -
  have a: "ndf scenA = 3 \<and> length [1 :: int] \<noteq> ndf scenA \<and>
   checkfixityInput scenA [1] = Returned () \<and>
   fst (setFixity scenA 0 (FixVec [1]) None) = Returned () \<and>
   map node_fixity (nodes scenA) = [[1, 1, 1], [1, 1, 1]] \<and>
   map node_fixity (nodes (snd (setFixity scenA 0 (FixVec [1]) None))) = [[1], [1, 1, 1]]"
    by code_simp
  have b: "setFixity scenA 0 (FixVec [1, 1]) None = (Raised ValueError, scenA)"
    by (rule setFixity_rejects[of "[1, 1]"]) (simp_all add: convertFixityInput_def)
  from a b show ?thesis by simp
qed

subsection \<open>C8: the length of the beam\<close>

text \<open>
  Claim C8, as amended. \<^verbatim>\<open>getLength\<close> raises IndexError exactly on a beam without nodes;
  with at least one node it returns the position of the last node minus that of the first,
  which is the rightmost minus the leftmost position when the nodes are sorted.
\<close>

theorem getLength_spec:
  "(nodes b = [] \<longrightarrow> getLength b = Raised IndexError) \<and>
   (nodes b \<noteq> [] \<longrightarrow>
      getLength b = Returned (node_x (last (nodes b)) - node_x (hd (nodes b)))) \<and>
   (nodes b \<noteq> [] \<and> sorted (map node_x (nodes b)) \<longrightarrow>
      getLength b = Returned (Max (node_x ` set (nodes b)) - Min (node_x ` set (nodes b))))"
proof (intro conjI impI)
  show "getLength b = Raised IndexError" if "nodes b = []"
    using that by (simp add: getLength_def)
  show eq: "getLength b = Returned (node_x (last (nodes b)) - node_x (hd (nodes b)))"
    if "nodes b \<noteq> []"
    using that by (simp add: getLength_def split: list.splits)
  show "getLength b = Returned (Max (node_x ` set (nodes b)) - Min (node_x ` set (nodes b)))"
    if h: "nodes b \<noteq> [] \<and> sorted (map node_x (nodes b))"
  proof -
    from h have ne: "map node_x (nodes b) \<noteq> []" by simp
    from sorted_Max_Min[OF _ ne] h
    have "Max (set (map node_x (nodes b))) = last (map node_x (nodes b))"
      "Min (set (map node_x (nodes b))) = hd (map node_x (nodes b))" by auto
    with h show ?thesis
      by (simp add: eq last_map hd_map)
  qed
qed

text \<open>
  The theorem at scenario A and at the empty beam.
\<close>

theorem getLength_spec_witness:
  "nodes scenA \<noteq> [] \<and> sorted (map node_x (nodes scenA)) \<and>
   getLength scenA = Returned (Max (node_x ` set (nodes scenA)) - Min (node_x ` set (nodes scenA))) \<and>
   getLength scenA = Returned 5 \<and>
   nodes (initBeam D2) = [] \<and> getLength (initBeam D2) = Raised IndexError"
proof -
  have a: "nodes scenA \<noteq> []" by code_simp
  have s: "sorted (map node_x (nodes scenA))" by code_simp
  have v: "getLength scenA = Returned 5" by code_simp
  have e: "nodes (initBeam D2) = []" by (simp add: initBeam_def)
  from getLength_spec[of scenA] getLength_spec[of "initBeam D2"] a s v e show ?thesis
    by simp
qed

text \<open>
  Claim C8 as stated gives no normal value below two nodes. With a single node the last
  and the first node are the same, and \<^verbatim>\<open>getLength\<close> returns 0.
\<close>

theorem getLength_single_node_counterexample:
  "length (nodes oneNodeBeam) = 1 \<and> getLength oneNodeBeam = Returned 0"
  by code_simp

subsection \<open>C9: extreme forces include zero\<close>

text \<open>
  Claim C9. When every node carries internal forces of length \<open>2 * ndf\<close> and
  \<open>0 \<le> index < ndf\<close>, \<^verbatim>\<open>Fmax(index)\<close> returns the minimum and the maximum of 0 together
  with the left and right values of all nodes at that index; the first is at most 0 and
  the second at least 0.
\<close>

theorem Fmax_clamped:
  assumes "\<forall>n\<in>set (nodes b). \<exists>fint. node_Fint n = Some fint \<and> length fint = 2 * ndf b"
    and "0 \<le> index" and "index < int (ndf b)"
  shows "Fmax b index =
           Returned (Min (insert 0 (forceValues b (nat index))),
                     Max (insert 0 (forceValues b (nat index)))) \<and>
         Min (insert 0 (forceValues b (nat index))) \<le> 0 \<and>
         0 \<le> Max (insert 0 (forceValues b (nat index)))"
proof -
  have fin: "finite (forceValues b (nat index))" by (simp add: forceValues_def)
  have "\<forall>n\<in>set (nodes b). \<exists>fint. node_Fint n = Some fint \<and> nat index + ndf b < length fint"
    using assms by fastforce
  from Fmax_loop_eq[OF this, of 0 0] assms(2)
  have "Fmax b index =
           Returned (Min (insert 0 (forceValues b (nat index))),
                     Max (insert 0 (forceValues b (nat index))))"
    by (simp add: Fmax_def forceValues_def)
  moreover have "Min (insert 0 (forceValues b (nat index))) \<le> 0"
    using fin by (intro Min_le) auto
  moreover have "0 \<le> Max (insert 0 (forceValues b (nat index)))"
    using fin by (intro Max_ge) auto
  ultimately show ?thesis by simp
qed

text \<open>
  The theorem on a beam whose forces are all positive: the minimum reported is 0.
\<close>

theorem Fmax_clamped_witness:
  "map node_Fint (nodes analysedBeam) = [Some [1, 2, 3, 4, 5, 6], Some [1, 2, 3, 4, 5, 6]] \<and>
   ndf analysedBeam = 3 \<and> (0::int) \<le> 1 \<and> 1 < int (ndf analysedBeam) \<and>
   forceValues analysedBeam (nat 1) = {2, 5} \<and>
   Fmax analysedBeam 1 =
     Returned (Min (insert 0 (forceValues analysedBeam (nat 1))),
               Max (insert 0 (forceValues analysedBeam (nat 1)))) \<and>
   Fmax analysedBeam 1 = Returned (0, 5)"
proof -
  have d: "ndf analysedBeam = 3" by code_simp
  have f: "map node_Fint (nodes analysedBeam) = [Some [1, 2, 3, 4, 5, 6], Some [1, 2, 3, 4, 5, 6]]"
    by code_simp
  have "\<forall>v\<in>set (map node_Fint (nodes analysedBeam)). \<exists>fint. v = Some fint \<and> length fint = 6"
    unfolding f by simp
  then have h: "\<forall>n\<in>set (nodes analysedBeam). \<exists>fint. node_Fint n = Some fint \<and>
       length fint = 2 * ndf analysedBeam"
    by (simp add: d)
  have "forceValues analysedBeam 1 =
          (\<Union>v\<in>set (map node_Fint (nodes analysedBeam)). {the v ! 1, the v ! (1 + 3)})"
    by (simp add: forceValues_def d)
  also have "\<dots> = {2, 5}" unfolding f by simp
  finally have fv: "forceValues analysedBeam (nat 1) = {2, 5}" by simp
  have v: "Fmax analysedBeam 1 = Returned (0, 5)" by code_simp
  from Fmax_clamped[OF h, of 1] d f fv v show ?thesis by simp
qed

subsection \<open>C10: the node count\<close>

text \<open>
  Claim C10. In every reachable beam, that is after the constructor and after each call of
  \<^verbatim>\<open>addNode\<close>, \<^verbatim>\<open>addLabel\<close>, \<^verbatim>\<open>addNodes\<close>, \<^verbatim>\<open>setFixity\<close>, \<^verbatim>\<open>addPointLoad\<close> and \<^verbatim>\<open>addDistLoad\<close>,
  \<^verbatim>\<open>Nnodes\<close> is the length of \<^verbatim>\<open>nodes\<close> and the size of \<^verbatim>\<open>nodeCoords\<close>; and a value returned
  by \<^verbatim>\<open>addNode\<close> is 0 or 1, never -1.
\<close>

theorem count_consistency:
  assumes "reachable b"
  shows "Nnodes b = length (nodes b) \<and> Nnodes b = fcard (nodeCoords b) \<and>
         (fst (addNode b x f l s) = Returned v \<longrightarrow> v = 0 \<or> v = 1)"
proof -
  from assms have inv: "beam_inv b" by (rule reachable_inv)
  then have "fcard (nodeCoords b) = card (set (map node_x (nodes b)))"
    by (simp add: beam_inv_def fcard.rep_eq)
  also have "\<dots> = length (nodes b)"
    using inv distinct_card[of "map node_x (nodes b)"] by (simp add: beam_inv_def)
  finally show ?thesis
    using inv addNode_flag[of b x f l s v] by (auto simp: beam_inv_def)
qed

text \<open>
  The theorem at scenario C: four nodes, a merge at 3 and a new node at 4.
\<close>

theorem count_consistency_witness:
  "reachable scenC \<and> Nnodes scenC = 4 \<and> length (nodes scenC) = 4 \<and>
   fcard (nodeCoords scenC) = 4 \<and>
   fst (addNode scenC 3 None None True) = Returned 0 \<and>
   fst (addNode scenC 4 None None True) = Returned 1"
proof -
  have r: "reachable scenC"
    unfolding scenC_def by (intro r_addNode reachable_scenA)
  have n: "Nnodes scenC = 4" by code_simp
  have a: "fst (addNode scenC 3 None None True) = Returned 0" by code_simp
  have b: "fst (addNode scenC 4 None None True) = Returned 1" by code_simp
  from count_consistency[OF r, of 3 None None True 0] r n a b show ?thesis by simp
qed

end
